theory Spec2Isabelle
  imports Complex_Main "HOL-Library.Product_Lexorder"
begin

section \<open>Numbers\<close>

text \<open>
  A JavaScript number is a binary64 floating-point value: a finite one, an infinity or
  \<open>NaN\<close>. A finite number is modelled by its exact value, a rational; the sign of zero
  is not modelled (no result of the analyzer depends on it: every division has a divisor
  that is positive or tested before).

  Every arithmetic operation computes the exact result and rounds it to the nearest
  binary64 value, ties to the even significand: \<open>rnd\<close>. A binary64 value is an integer
  multiple of its quantum \<open>2^(e - 52)\<close>, for the exponent \<open>e\<close> of the value and at least
  \<open>-1022\<close>, with a multiplier below \<open>2^53\<close> in magnitude; values that round to \<open>2^1024\<close>
  or beyond become an infinity. \<open>ilog2 x\<close> is the exponent of a positive \<open>x\<close>: the
  integer \<open>e\<close> with \<open>2^e \<le> x < 2^(e + 1)\<close>.
\<close>

datatype number = Fin rat | PInf | NInf | NaN

function ilog2 :: "rat \<Rightarrow> int" where
  "ilog2 x =
     (if x \<le> 0 then 0
      else if 2 \<le> x then ilog2 (x / 2) + 1
      else if x < 1 then ilog2 (x * 2) - 1
      else 0)"
  by pat_completeness auto
termination
proof (relation "measure (\<lambda>x. if 1 \<le> x then nat \<lfloor>x\<rfloor> else nat \<lfloor>1 / x\<rfloor> + 1)")
  show "wf (measure (\<lambda>x::rat. if 1 \<le> x then nat \<lfloor>x\<rfloor> else nat \<lfloor>1 / x\<rfloor> + 1))" by simp
next
  fix x :: rat
  assume "\<not> x \<le> 0" "2 \<le> x"
  then have "\<lfloor>x / 2\<rfloor> < \<lfloor>x\<rfloor>" "1 \<le> x / 2" "0 \<le> \<lfloor>x / 2\<rfloor>"
    by (simp_all add: floor_less_iff le_floor_iff) linarith+
  then show "(x / 2, x) \<in> measure (\<lambda>x. if 1 \<le> x then nat \<lfloor>x\<rfloor> else nat \<lfloor>1 / x\<rfloor> + 1)"
    using \<open>2 \<le> x\<close> by simp
next
  fix x :: rat
  assume a: "\<not> x \<le> 0" "\<not> 2 \<le> x" "x < 1"
  then have p: "0 < x" by simp
  have inv: "1 / (x * 2) = (1 / x) / 2" by simp
  have big: "1 < 1 / x" using a p by (simp add: field_simps)
  show "(x * 2, x) \<in> measure (\<lambda>x. if 1 \<le> x then nat \<lfloor>x\<rfloor> else nat \<lfloor>1 / x\<rfloor> + 1)"
  proof (cases "1 \<le> x * 2")
    case True
    then have "\<lfloor>x * 2\<rfloor> = 1" using a by (simp add: floor_eq_iff)
    moreover have "1 \<le> \<lfloor>1 / x\<rfloor>" using big by (simp add: le_floor_iff)
    ultimately show ?thesis using True a by simp
  next
    case False
    then have "x * 2 < 1" by simp
    then have "2 < 1 / x" using p by (simp add: field_simps)
    then have "\<lfloor>(1 / x) / 2\<rfloor> < \<lfloor>1 / x\<rfloor>" "0 \<le> \<lfloor>(1 / x) / 2\<rfloor>"
      using p by (simp_all add: floor_less_iff le_floor_iff) linarith+
    then show ?thesis using False a unfolding inv by simp
  qed
qed

declare ilog2.simps [simp del]

definition pow2 :: "int \<Rightarrow> rat" where
  "pow2 k = (if 0 \<le> k then 2 ^ nat k else 1 / 2 ^ nat (- k))"

definition roundHalfEven :: "rat \<Rightarrow> int" where
  "roundHalfEven x =
     (let n = \<lfloor>x\<rfloor>; r = x - of_int n
      in if r < 1 / 2 then n else if 1 / 2 < r then n + 1 else if even n then n else n + 1)"

definition quantum :: "rat \<Rightarrow> rat" where
  "quantum x = pow2 (max (ilog2 \<bar>x\<bar>) (- 1022) - 52)"

definition rnd :: "rat \<Rightarrow> number" where
  "rnd x =
     (let y = of_int (roundHalfEven (x / quantum x)) * quantum x
      in if pow2 1024 \<le> y then PInf else if y \<le> - pow2 1024 then NInf else Fin y)"

text \<open>
  The sign of a number, and the infinity of a sign (\<open>NaN\<close> for none): what the operations
  return where an operand is no finite number or a divisor is zero.
\<close>

definition sign :: "number \<Rightarrow> int" where
  "sign a = (case a of Fin x \<Rightarrow> (if 0 < x then 1 else if x < 0 then - 1 else 0)
              | PInf \<Rightarrow> 1 | NInf \<Rightarrow> - 1 | NaN \<Rightarrow> 0)"

definition infinity :: "int \<Rightarrow> number" where
  "infinity s = (if 0 < s then PInf else if s < 0 then NInf else NaN)"

definition fneg :: "number \<Rightarrow> number" where
  "fneg a = (case a of Fin x \<Rightarrow> Fin (- x) | PInf \<Rightarrow> NInf | NInf \<Rightarrow> PInf | NaN \<Rightarrow> NaN)"

text \<open>\<open>a + b\<close>, \<open>a - b\<close>, \<open>a * b\<close> and \<open>a / b\<close> on numbers.\<close>

definition fadd :: "number \<Rightarrow> number \<Rightarrow> number" where
  "fadd a b =
     (case (a, b) of
        (Fin x, Fin y) \<Rightarrow> rnd (x + y)
      | (Fin x, _) \<Rightarrow> b
      | (_, Fin y) \<Rightarrow> a
      | _ \<Rightarrow> if a = b then a else NaN)"

definition fsub :: "number \<Rightarrow> number \<Rightarrow> number" where
  "fsub a b = fadd a (fneg b)"

definition fmul :: "number \<Rightarrow> number \<Rightarrow> number" where
  "fmul a b =
     (case (a, b) of
        (Fin x, Fin y) \<Rightarrow> rnd (x * y)
      | _ \<Rightarrow> if a = NaN \<or> b = NaN then NaN else infinity (sign a * sign b))"

definition fdiv :: "number \<Rightarrow> number \<Rightarrow> number" where
  "fdiv a b =
     (case (a, b) of
        (Fin x, Fin y) \<Rightarrow> if y = 0 then infinity (sign a) else rnd (x / y)
      | (Fin x, _) \<Rightarrow> if b = NaN then NaN else Fin 0
      | (_, Fin y) \<Rightarrow> if a = NaN then NaN else infinity (sign a * (if y < 0 then - 1 else 1))
      | _ \<Rightarrow> NaN)"

text \<open>\<open>a > b\<close>, \<open>a <= b\<close> and \<open>a < b\<close>: false as soon as an operand is \<open>NaN\<close>.\<close>

definition greater :: "number \<Rightarrow> number \<Rightarrow> bool" where
  "greater a b =
     (case (a, b) of
        (Fin x, Fin y) \<Rightarrow> y < x
      | (PInf, Fin y) \<Rightarrow> True | (PInf, NInf) \<Rightarrow> True | (Fin x, NInf) \<Rightarrow> True
      | _ \<Rightarrow> False)"

definition lessEq :: "number \<Rightarrow> number \<Rightarrow> bool" where
  "lessEq a b = (a \<noteq> NaN \<and> b \<noteq> NaN \<and> \<not> greater a b)"

definition less :: "number \<Rightarrow> number \<Rightarrow> bool" where
  "less a b = greater b a"

text \<open>A number is falsy when it is zero or \<open>NaN\<close>.\<close>

definition falsy :: "number \<Rightarrow> bool" where
  "falsy a = (a = Fin 0 \<or> a = NaN)"

text \<open>
  \<open>roundDecimal f x\<close> is the decimal that \<open>x.toFixed(f)\<close> prints for a finite \<open>x\<close>:
  ECMAScript's \<open>Number.prototype.toFixed\<close> takes the sign off, picks the integer \<open>n\<close> for
  which \<open>n / 10^f\<close> is closest to the exact value of the number (the larger \<open>n\<close> when two
  are equally close) and prints \<open>n\<close> with \<open>f\<close> decimals behind the sign. From \<open>10^21\<close> on
  \<open>toFixed\<close> prints the number itself, and a binary64 value of that size is an integer,
  which the rounding leaves as it is, so the formula has no case for it.

  \<open>toFixed f x\<close> is the number \<open>parseFloat(x.toFixed(f))\<close>: \<open>parseFloat\<close> reads the decimal
  as the nearest binary64 value; an infinity and \<open>NaN\<close> print as their names and read
  back as themselves.
\<close>

definition roundDecimal :: "nat \<Rightarrow> rat \<Rightarrow> rat" where
  "roundDecimal f x =
     (if x < 0 then - (of_int \<lfloor>(- x) * 10 ^ f + 1 / 2\<rfloor> / 10 ^ f)
      else of_int \<lfloor>x * 10 ^ f + 1 / 2\<rfloor> / 10 ^ f)"

definition toFixed :: "nat \<Rightarrow> number \<Rightarrow> number" where
  "toFixed f a = (case a of Fin x \<Rightarrow> rnd (roundDecimal f x) | _ \<Rightarrow> a)"

section \<open>The data\<close>

text \<open>
  The amounts and the budget of the loaded data are finite numbers, as JSON has them;
  the rational is the exact value of the binary64 number.
\<close>

record transaction =
  date :: string
  category :: string
  amount :: rat

record student =
  studentId :: string
  name :: string
  semester :: string
  monthlyBudget :: rat
  transactions :: "transaction list"

record dataset =
  students :: "student list"

datatype error = Error string | TypeError

section \<open>Spending metrics\<close>

record spendingMetrics =
  total :: number
  average :: number
  transactionCount :: nat
  dailyAverage :: number

text \<open>\<open>getUniqueDays\<close>: the size of the \<open>Set\<close> of the transactions' dates.\<close>

definition getUniqueDays :: "transaction list \<Rightarrow> nat" where
  "getUniqueDays ts = card (set (map date ts))"

definition calculateSpendingMetrics :: "transaction list \<Rightarrow> spendingMetrics" where
  "calculateSpendingMetrics ts =
     (if length ts = 0 then
        \<lparr>total = Fin 0, average = Fin 0, transactionCount = 0, dailyAverage = Fin 0\<rparr>
      else
        let tot = foldl (\<lambda>sum t. fadd sum (Fin (amount t))) (Fin 0) ts;
            avg = fdiv tot (Fin (of_nat (length ts)));
            uniqueDays = getUniqueDays ts;
            dailyAvg = (if uniqueDays > 0 then fdiv tot (Fin (of_nat uniqueDays)) else Fin 0)
        in \<lparr>total = toFixed 2 tot,
            average = toFixed 2 avg,
            transactionCount = length ts,
            dailyAverage = toFixed 2 dailyAvg\<rparr>)"

section \<open>Budget analysis\<close>

record budgetAnalysis =
  allocated :: rat
  spent :: number
  remaining :: number
  utilization :: number
  status :: string
  isOverBudget :: bool

definition getBudgetStatus :: "number \<Rightarrow> string" where
  "getBudgetStatus utilizationPercentage =
     (if lessEq utilizationPercentage (Fin 50) then ''Conservative''
      else if lessEq utilizationPercentage (Fin 75) then ''Moderate''
      else if lessEq utilizationPercentage (Fin 90) then ''High''
      else if lessEq utilizationPercentage (Fin 100) then ''Near Limit''
      else ''Over Budget'')"

definition analyzeBudget :: "transaction list \<Rightarrow> rat \<Rightarrow> budgetAnalysis" where
  "analyzeBudget ts budget =
     (let totalSpent = foldl (\<lambda>sum t. fadd sum (Fin (amount t))) (Fin 0) ts;
          remainingBudget = fsub (Fin budget) totalSpent;
          utilizationPercentage =
            (if budget > 0 then fmul (fdiv totalSpent (Fin budget)) (Fin 100) else Fin 0)
      in \<lparr>allocated = budget,
          spent = toFixed 2 totalSpent,
          remaining = toFixed 2 remainingBudget,
          utilization = toFixed 1 utilizationPercentage,
          status = getBudgetStatus utilizationPercentage,
          isOverBudget = greater totalSpent (Fin budget)\<rparr>)"

section \<open>Objects used as dictionaries\<close>

text \<open>
  The category and timeline analyses collect their sums in an object literal \<open>{}\<close>,
  keyed by the category or the date. Three things of such an object show in the results.

  \<^item> Its values: a number, or what \<open>+\<close> makes of a left operand that is not a number.
    Only whether a value is a number matters later (\<open>toFixed\<close> exists on numbers alone),
    so the model has one value \<open>NotNum\<close> for every string, function and object.
  \<^item> Reading a key the object does not own falls through to \<open>Object.prototype\<close>: for
    the names of its members the read gives a function (or, for \<open>__proto__\<close>, the
    prototype object), for any other name \<open>undefined\<close>. Writing \<open>__proto__\<close> calls the
    prototype's setter, which ignores a value that is neither an object nor \<open>null\<close>;
    writing any other name creates or overwrites an own property.
  \<^item> \<open>Object.entries\<close> and \<open>Object.values\<close> list the own properties with the keys that
    are array indices (canonical decimal numerals below \<open>2^32 - 1\<close>) first, in ascending
    numeric order, and then the other keys in the order of their creation.
\<close>

datatype jsvalue = Num number | NotNum

type_synonym jsobject = "(string \<times> jsvalue) list"

definition objectPrototypeNames :: "string list" where
  "objectPrototypeNames =
     [''constructor'', ''__defineGetter__'', ''__defineSetter__'', ''hasOwnProperty'',
      ''__lookupGetter__'', ''__lookupSetter__'', ''isPrototypeOf'', ''propertyIsEnumerable'',
      ''toString'', ''valueOf'', ''__proto__'', ''toLocaleString'']"

text \<open>\<open>obj[k]\<close>; \<open>None\<close> is \<open>undefined\<close>.\<close>

definition getProp :: "jsobject \<Rightarrow> string \<Rightarrow> jsvalue option" where
  "getProp obj k =
     (case map_of obj k of
        Some v \<Rightarrow> Some v
      | None \<Rightarrow> if k \<in> set objectPrototypeNames then Some NotNum else None)"

text \<open>
  \<open>v || 0\<close>: \<open>undefined\<close>, the number zero and \<open>NaN\<close> are falsy, every \<open>NotNum\<close> here is
  truthy.
\<close>

definition orZero :: "jsvalue option \<Rightarrow> jsvalue" where
  "orZero v =
     (case v of
        None \<Rightarrow> Num (Fin 0)
      | Some (Num x) \<Rightarrow> (if falsy x then Num (Fin 0) else Num x)
      | Some NotNum \<Rightarrow> NotNum)"

text \<open>\<open>a + b\<close>: the sum of two numbers, a string as soon as one operand is not a number.\<close>

definition jsAdd :: "jsvalue \<Rightarrow> jsvalue \<Rightarrow> jsvalue" where
  "jsAdd a b = (case (a, b) of (Num x, Num y) \<Rightarrow> Num (fadd x y) | _ \<Rightarrow> NotNum)"

text \<open>\<open>obj[k] = v\<close>, for a value \<open>v\<close> that is a number or a string.\<close>

definition setProp :: "jsobject \<Rightarrow> string \<Rightarrow> jsvalue \<Rightarrow> jsobject" where
  "setProp obj k v =
     (if k = ''__proto__'' then obj
      else if k \<in> set (map fst obj) then map (\<lambda>(k', v'). if k' = k then (k', v) else (k', v')) obj
      else obj @ [(k, v)])"

definition isDigit :: "char \<Rightarrow> bool" where
  "isDigit c = (c \<in> set ''0123456789'')"

definition digitsValue :: "string \<Rightarrow> nat" where
  "digitsValue s = foldl (\<lambda>n c. 10 * n + (of_char c - 48)) 0 s"

definition isArrayIndex :: "string \<Rightarrow> bool" where
  "isArrayIndex s =
     (s \<noteq> [] \<and> list_all isDigit s \<and> (if hd s = CHR ''0'' then s = ''0'' else True) \<and>
      digitsValue s < 4294967295)"

text \<open>\<open>Object.entries(obj)\<close>.\<close>

definition entries :: "jsobject \<Rightarrow> (string \<times> jsvalue) list" where
  "entries obj =
     sort_key (\<lambda>(k, v). digitsValue k) (filter (\<lambda>(k, v). isArrayIndex k) obj) @
     filter (\<lambda>(k, v). \<not> isArrayIndex k) obj"

text \<open>
  \<open>Array.prototype.sort\<close> with a comparison function: \<open>a\<close> comes before \<open>b\<close> when
  \<open>cmp a b < 0\<close> and after it when \<open>cmp a b > 0\<close>, a result \<open>NaN\<close> counts as 0, and the
  sort is stable (ECMAScript 2019), so elements that compare equal keep their order. For
  a consistent comparison that fixes the result, which insertion from the right computes.
\<close>

fun insertSorted :: "('a \<Rightarrow> 'a \<Rightarrow> number) \<Rightarrow> 'a \<Rightarrow> 'a list \<Rightarrow> 'a list" where
  "insertSorted cmp x [] = [x]"
| "insertSorted cmp x (y # ys) =
     (if greater (cmp x y) (Fin 0) then y # insertSorted cmp x ys else x # y # ys)"

definition arraySort :: "('a \<Rightarrow> 'a \<Rightarrow> number) \<Rightarrow> 'a list \<Rightarrow> 'a list" where
  "arraySort cmp xs = foldr (insertSorted cmp) xs []"

text \<open>\<open>Array.prototype.map\<close> with a callback that may throw: the first throw ends it.\<close>

fun mapE :: "('a \<Rightarrow> error + 'b) \<Rightarrow> 'a list \<Rightarrow> error + 'b list" where
  "mapE f [] = Inr []"
| "mapE f (x # xs) =
     (case f x of
        Inl e \<Rightarrow> Inl e
      | Inr y \<Rightarrow> (case mapE f xs of Inl e \<Rightarrow> Inl e | Inr ys \<Rightarrow> Inr (y # ys)))"

section \<open>Category breakdown\<close>

text \<open>
  The fields \<open>name\<close>, \<open>amount\<close> and \<open>transactionCount\<close> of the source are
  \<open>categoryName\<close>, \<open>categoryAmount\<close> and \<open>categoryCount\<close> here. \<open>categoryCount\<close> is what
  the count object holds for the category.
\<close>

record categoryEntry =
  categoryName :: string
  categoryAmount :: number
  percentage :: number
  categoryCount :: "jsvalue option"
  averagePerTransaction :: number

text \<open>
  \<open>parseFloat((a / c).toFixed(2))\<close> for a number \<open>a\<close>: a divisor that is \<open>undefined\<close> or a
  string that is no numeral converts to \<open>NaN\<close>.
\<close>

definition averageOver :: "number \<Rightarrow> jsvalue option \<Rightarrow> number" where
  "averageOver a c = (case c of Some (Num n) \<Rightarrow> toFixed 2 (fdiv a n) | _ \<Rightarrow> NaN)"

text \<open>
  The callback of \<open>map\<close>. The fields are evaluated in order, so \<open>amount.toFixed(2)\<close> comes
  first and throws a \<open>TypeError\<close> when the total of the category is not a number. In
  \<open>totalSpent > 0\<close> a total that is not a number is a string that is no numeral; it
  compares as \<open>NaN\<close>, and the comparison is false.
\<close>

definition categoryOf :: "jsobject \<Rightarrow> jsvalue \<Rightarrow> string \<times> jsvalue \<Rightarrow> error + categoryEntry" where
  "categoryOf categoryTransactionCounts totalSpent e =
     (case e of
        (c, NotNum) \<Rightarrow> Inl TypeError
      | (c, Num a) \<Rightarrow>
          Inr \<lparr>categoryName = c,
               categoryAmount = toFixed 2 a,
               percentage =
                 (case totalSpent of
                    Num t \<Rightarrow>
                      if greater t (Fin 0) then toFixed 1 (fmul (fdiv a t) (Fin 100)) else Fin 0
                  | NotNum \<Rightarrow> Fin 0),
               categoryCount = getProp categoryTransactionCounts c,
               averagePerTransaction = averageOver a (getProp categoryTransactionCounts c)\<rparr>)"

definition analyzeCategoricalSpending :: "transaction list \<Rightarrow> error + categoryEntry list" where
  "analyzeCategoricalSpending ts =
     (let (categoryTotals, categoryTransactionCounts) =
            foldl (\<lambda>(tot, cnt) t.
                     (setProp tot (category t)
                        (jsAdd (orZero (getProp tot (category t))) (Num (Fin (amount t)))),
                      setProp cnt (category t)
                        (jsAdd (orZero (getProp cnt (category t))) (Num (Fin 1)))))
                  ([], []) ts;
          totalSpent = foldl (\<lambda>sum (k, a). jsAdd sum a) (Num (Fin 0)) (entries categoryTotals)
      in case mapE (categoryOf categoryTransactionCounts totalSpent) (entries categoryTotals) of
           Inl e \<Rightarrow> Inl e
         | Inr cs \<Rightarrow> Inr (arraySort (\<lambda>a b. fsub (categoryAmount b) (categoryAmount a)) cs))"

section \<open>Timeline\<close>

text \<open>
  A day of the timeline; the fields \<open>date\<close> and \<open>amount\<close> of the source are \<open>dayDate\<close>
  and \<open>dayAmount\<close>, and \<open>dayDate = None\<close> is the \<open>null\<close> of the default day.

  The days are sorted by \<open>new Date(a.date) - new Date(b.date)\<close>. How a string is read as a
  date is the platform's business, so the analysis takes it as a parameter: \<open>dateValue d\<close>
  is the time value of \<open>new Date(d)\<close>, in milliseconds since the epoch. Strings that are
  no date (their time value is \<open>NaN\<close>) are outside the model. \<open>new Date(null)\<close> is the epoch.
\<close>

record day =
  dayDate :: "string option"
  dayAmount :: number

record timelineAnalysis =
  dailySpending :: "day list"
  highestSpendingDay :: day
  lowestSpendingDay :: day

definition timeOf :: "(string \<Rightarrow> int) \<Rightarrow> day \<Rightarrow> int" where
  "timeOf dateValue d = (case dayDate d of Some s \<Rightarrow> dateValue s | None \<Rightarrow> 0)"

definition dayOf :: "string \<times> jsvalue \<Rightarrow> error + day" where
  "dayOf e =
     (case e of
        (d, NotNum) \<Rightarrow> Inl TypeError
      | (d, Num a) \<Rightarrow> Inr \<lparr>dayDate = Some d, dayAmount = toFixed 2 a\<rparr>)"

text \<open>\<open>sortedDays[0] || { date: null, amount: 0 }\<close>.\<close>

definition firstOrDefault :: "day list \<Rightarrow> day" where
  "firstOrDefault ds = (case ds of [] \<Rightarrow> \<lparr>dayDate = None, dayAmount = Fin 0\<rparr> | d # _ \<Rightarrow> d)"

definition analyzeSpendingTimeline :: "(string \<Rightarrow> int) \<Rightarrow> transaction list \<Rightarrow> error + timelineAnalysis" where
  "analyzeSpendingTimeline dateValue ts =
     (let daily = foldl (\<lambda>obj t. setProp obj (date t)
                                  (jsAdd (orZero (getProp obj (date t))) (Num (Fin (amount t)))))
                    [] ts
      in case mapE dayOf (entries daily) of
           Inl e \<Rightarrow> Inl e
         | Inr ds \<Rightarrow>
             let sortedDays =
                   arraySort (\<lambda>a b. fsub (Fin (of_int (timeOf dateValue a)))
                                        (Fin (of_int (timeOf dateValue b)))) ds
             in Inr \<lparr>dailySpending = sortedDays,
                     highestSpendingDay =
                       foldl (\<lambda>max d. if greater (dayAmount d) (dayAmount max) then d else max)
                         (firstOrDefault sortedDays) sortedDays,
                     lowestSpendingDay =
                       foldl (\<lambda>min d. if less (dayAmount d) (dayAmount min) then d else min)
                         (firstOrDefault sortedDays) sortedDays\<rparr>)"

section \<open>Analysis of one student\<close>

record studentInfo =
  infoId :: string
  infoName :: string
  infoSemester :: string
  infoBudget :: rat

record analysis =
  info :: studentInfo
  spending :: spendingMetrics
  budget :: budgetAnalysis
  categories :: "categoryEntry list"
  timeline :: timelineAnalysis

text \<open>
  \<open>analyzeStudent\<close>, with the analyzer's field \<open>this.data\<close> as an argument: \<open>None\<close> is the
  \<open>null\<close> of a fresh analyzer. The object literal evaluates its fields in order, so a
  throw of the category analysis comes before one of the timeline analysis.
\<close>

definition analyzeStudent :: "(string \<Rightarrow> int) \<Rightarrow> dataset option \<Rightarrow> string \<Rightarrow> error + analysis" where
  "analyzeStudent dateValue data sid =
     (case data of
        None \<Rightarrow> Inl (Error ''No data loaded. Call loadData() first.'')
      | Some d \<Rightarrow>
          (case find (\<lambda>s. studentId s = sid) (students d) of
             None \<Rightarrow> Inl (Error (''Student '' @ sid @ '' not found''))
           | Some s \<Rightarrow>
               (case analyzeCategoricalSpending (transactions s) of
                  Inl e \<Rightarrow> Inl e
                | Inr cs \<Rightarrow>
                    (case analyzeSpendingTimeline dateValue (transactions s) of
                       Inl e \<Rightarrow> Inl e
                     | Inr tline \<Rightarrow>
                         Inr \<lparr>info = \<lparr>infoId = studentId s, infoName = name s,
                                       infoSemester = semester s, infoBudget = monthlyBudget s\<rparr>,
                              spending = calculateSpendingMetrics (transactions s),
                              budget = analyzeBudget (transactions s) (monthlyBudget s),
                              categories = cs,
                              timeline = tline\<rparr>))))"

section \<open>Validation\<close>

text \<open>
  \<open>validateData\<close> reads the loaded data field by field, before anything is known of its
  shape, so here the data is a value of JSON's shape: what \<open>JSON.parse\<close> returns, or an
  object handed to \<open>loadData\<close>. A key that an object does not have reads as \<open>undefined\<close>,
  as does any of the validator's property names on a number, a string, a boolean or an
  array; reading a property of \<open>null\<close> or \<open>undefined\<close> throws a \<open>TypeError\<close>.
\<close>

datatype jsdata =
  JUndefined | JNull | JBoolean bool | JNumber rat | JString string
  | JArray "jsdata list" | JObject "(string \<times> jsdata) list"

definition truthy :: "jsdata \<Rightarrow> bool" where
  "truthy v =
     (case v of
        JUndefined \<Rightarrow> False | JNull \<Rightarrow> False | JBoolean b \<Rightarrow> b | JNumber x \<Rightarrow> x \<noteq> 0
      | JString s \<Rightarrow> s \<noteq> [] | JArray xs \<Rightarrow> True | JObject fs \<Rightarrow> True)"

definition nullish :: "jsdata \<Rightarrow> bool" where
  "nullish v = (v = JUndefined \<or> v = JNull)"

text \<open>\<open>v.k\<close> for a value \<open>v\<close> that is neither \<open>null\<close> nor \<open>undefined\<close>.\<close>

definition getField :: "jsdata \<Rightarrow> string \<Rightarrow> jsdata" where
  "getField v k =
     (case v of
        JObject fs \<Rightarrow> (case map_of fs k of Some x \<Rightarrow> x | None \<Rightarrow> JUndefined)
      | _ \<Rightarrow> JUndefined)"

definition isArray :: "jsdata \<Rightarrow> bool" where
  "isArray v = (case v of JArray xs \<Rightarrow> True | _ \<Rightarrow> False)"

definition elements :: "jsdata \<Rightarrow> jsdata list" where
  "elements v = (case v of JArray xs \<Rightarrow> xs | _ \<Rightarrow> [])"

text \<open>The decimal numeral of a number, as a template literal prints an index.\<close>

function showNat :: "nat \<Rightarrow> string" where
  "showNat n =
     (if n < 10 then [''0123456789'' ! n] else showNat (n div 10) @ [''0123456789'' ! (n mod 10)])"
  by pat_completeness auto
termination
  by (relation "measure id") auto

declare showNat.simps [simp del]

text \<open>\<open>Array.prototype.forEach\<close> with a callback that may throw, from index \<open>i\<close> on.\<close>

fun forEachFrom :: "nat \<Rightarrow> ('a \<Rightarrow> nat \<Rightarrow> error + unit) \<Rightarrow> 'a list \<Rightarrow> error + unit" where
  "forEachFrom i f [] = Inr ()"
| "forEachFrom i f (x # xs) =
     (case f x i of Inl e \<Rightarrow> Inl e | Inr u \<Rightarrow> forEachFrom (Suc i) f xs)"

definition forEach :: "('a \<Rightarrow> nat \<Rightarrow> error + unit) \<Rightarrow> 'a list \<Rightarrow> error + unit" where
  "forEach f xs = forEachFrom 0 f xs"

definition checkTransaction :: "nat \<Rightarrow> jsdata \<Rightarrow> nat \<Rightarrow> error + unit" where
  "checkTransaction index t tIndex =
     (if nullish t then Inl TypeError
      else if \<not> truthy (getField t ''date'') \<or> \<not> truthy (getField t ''category'') \<or>
              getField t ''amount'' = JUndefined
      then Inl (Error (''Student '' @ showNat (index + 1) @ '', Transaction '' @
                       showNat (tIndex + 1) @ '': Missing required fields''))
      else Inr ())"

definition checkStudent :: "jsdata \<Rightarrow> nat \<Rightarrow> error + unit" where
  "checkStudent s index =
     (if nullish s then Inl TypeError
      else if \<not> truthy (getField s ''studentId'') \<or> \<not> truthy (getField s ''name'') \<or>
              \<not> truthy (getField s ''monthlyBudget'')
      then Inl (Error (''Student '' @ showNat (index + 1) @ '': Missing required fields''))
      else if \<not> truthy (getField s ''transactions'') \<or> \<not> isArray (getField s ''transactions'')
      then Inl (Error (''Student '' @ showNat (index + 1) @ '': Missing or invalid transactions''))
      else forEach (checkTransaction index) (elements (getField s ''transactions'')))"

definition validateData :: "jsdata \<Rightarrow> error + unit" where
  "validateData data =
     (if \<not> truthy data \<or> \<not> truthy (getField data ''students'') \<or> \<not> isArray (getField data ''students'')
      then Inl (Error ''Invalid data structure: Missing students array'')
      else forEach checkStudent (elements (getField data ''students'')))"

text \<open>
  The datasets the validator accepts: every student is an object with a non-empty string
  as \<open>studentId\<close> and as \<open>name\<close>, a number other than zero as \<open>monthlyBudget\<close>, and an array
  of transactions, each an object with a non-empty string as \<open>date\<close> and as \<open>category\<close>
  and an \<open>amount\<close> that is not \<open>undefined\<close>.
\<close>

definition isObject :: "jsdata \<Rightarrow> bool" where
  "isObject v = (case v of JObject fs \<Rightarrow> True | _ \<Rightarrow> False)"

definition nonEmptyString :: "jsdata \<Rightarrow> bool" where
  "nonEmptyString v = (case v of JString s \<Rightarrow> s \<noteq> [] | _ \<Rightarrow> False)"

definition nonZeroNumber :: "jsdata \<Rightarrow> bool" where
  "nonZeroNumber v = (case v of JNumber x \<Rightarrow> x \<noteq> 0 | _ \<Rightarrow> False)"

definition completeTransaction :: "jsdata \<Rightarrow> bool" where
  "completeTransaction t =
     (isObject t \<and> nonEmptyString (getField t ''date'') \<and> nonEmptyString (getField t ''category'') \<and>
      getField t ''amount'' \<noteq> JUndefined)"

definition completeHeader :: "jsdata \<Rightarrow> bool" where
  "completeHeader s =
     (isObject s \<and> nonEmptyString (getField s ''studentId'') \<and> nonEmptyString (getField s ''name'') \<and>
      nonZeroNumber (getField s ''monthlyBudget'') \<and> isArray (getField s ''transactions''))"

definition completeStudent :: "jsdata \<Rightarrow> bool" where
  "completeStudent s =
     (completeHeader s \<and> list_all completeTransaction (elements (getField s ''transactions'')))"

section \<open>Vocabulary of the claims\<close>

text \<open>
  \<open>double q\<close> is the binary64 value that the decimal \<open>q\<close> denotes in the data (a decimal
  in the range of the finite numbers). \<open>floatSum xs\<close> is the sum of \<open>xs\<close> as the code
  accumulates it: from 0, left to right, each partial sum rounded to binary64.
  \<open>firstSeen xs\<close> lists the distinct elements of \<open>xs\<close> in the order of their first
  occurrence. \<open>groupSum key val ts k\<close> is that sum of \<open>val\<close> over the transactions with key
  \<open>k\<close>. \<open>keyOrder ks\<close> is the order in which an object lists keys created in the order
  \<open>ks\<close>. \<open>grouped key val ts\<close> is the object that holds, for each key in first-seen order,
  the sum of its group; \<open>accumulate\<close> is one step of the iteration that builds it.
  \<open>categoryTotal ts\<close> is the sum of the category sums in key order, \<open>categoryRow ts k\<close>
  the entry of the breakdown for the category \<open>k\<close>, and \<open>dayRow ts k\<close> the day of the
  timeline for the date \<open>k\<close>. \<open>rank\<close> orders the numbers other than \<open>NaN\<close> as \<open><\<close> does.
\<close>

definition double :: "rat \<Rightarrow> rat" where
  "double q = (case rnd q of Fin x \<Rightarrow> x | _ \<Rightarrow> 0)"

definition floatSum :: "rat list \<Rightarrow> number" where
  "floatSum xs = foldl (\<lambda>s x. fadd s (Fin x)) (Fin 0) xs"

definition firstSeen :: "'a list \<Rightarrow> 'a list" where
  "firstSeen xs = rev (remdups (rev xs))"

definition groupSum :: "(transaction \<Rightarrow> string) \<Rightarrow> (transaction \<Rightarrow> rat) \<Rightarrow> transaction list \<Rightarrow> string \<Rightarrow> number" where
  "groupSum key val ts k = floatSum (map val (filter (\<lambda>t. key t = k) ts))"

definition keyOrder :: "string list \<Rightarrow> string list" where
  "keyOrder ks = sort_key digitsValue (filter isArrayIndex ks) @ filter (\<lambda>k. \<not> isArrayIndex k) ks"

definition accumulate :: "(transaction \<Rightarrow> string) \<Rightarrow> (transaction \<Rightarrow> rat) \<Rightarrow> jsobject \<Rightarrow> transaction \<Rightarrow> jsobject" where
  "accumulate key val obj t =
     setProp obj (key t) (jsAdd (orZero (getProp obj (key t))) (Num (Fin (val t))))"

definition grouped :: "(transaction \<Rightarrow> string) \<Rightarrow> (transaction \<Rightarrow> rat) \<Rightarrow> transaction list \<Rightarrow> jsobject" where
  "grouped key val ts = map (\<lambda>k. (k, Num (groupSum key val ts k))) (firstSeen (map key ts))"

definition categoryTotal :: "transaction list \<Rightarrow> number" where
  "categoryTotal ts =
     foldl fadd (Fin 0)
       (map (groupSum category amount ts) (keyOrder (firstSeen (map category ts))))"

definition categoryRow :: "transaction list \<Rightarrow> string \<Rightarrow> categoryEntry" where
  "categoryRow ts k =
     (let a = groupSum category amount ts k;
          n = getProp (grouped category (\<lambda>t. 1) ts) k
      in \<lparr>categoryName = k,
          categoryAmount = toFixed 2 a,
          percentage =
            (if greater (categoryTotal ts) (Fin 0)
             then toFixed 1 (fmul (fdiv a (categoryTotal ts)) (Fin 100)) else Fin 0),
          categoryCount = n,
          averagePerTransaction = averageOver a n\<rparr>)"

definition dayRow :: "transaction list \<Rightarrow> string \<Rightarrow> day" where
  "dayRow ts k = \<lparr>dayDate = Some k, dayAmount = toFixed 2 (groupSum date amount ts k)\<rparr>"

definition rank :: "number \<Rightarrow> int \<times> rat" where
  "rank a = (case a of Fin x \<Rightarrow> (0, x) | PInf \<Rightarrow> (1, 0) | NInf \<Rightarrow> (- 1, 0) | NaN \<Rightarrow> (2, 0))"

definition onGrid :: "rat \<Rightarrow> bool" where
  "onGrid v = (of_int \<lfloor>v * pow2 1074\<rfloor> = v * pow2 1074)"

definition regular :: "number \<Rightarrow> bool" where
  "regular a = (case a of Fin v \<Rightarrow> onGrid v | NaN \<Rightarrow> False | _ \<Rightarrow> True)"

definition rankDesc :: "number \<Rightarrow> int \<times> rat" where
  "rankDesc a = (case rank a of (i, x) \<Rightarrow> (- i, - x))"

section \<open>Binary64 arithmetic\<close>

lemma floor_half_rat [simp]: "\<lfloor>(1::rat) / 2\<rfloor> = 0"
  by (simp add: floor_eq_iff)

lemma floor_numeral_divide_rat [simp]:
  "\<lfloor>(numeral a :: rat) / numeral b\<rfloor> = numeral a div numeral b"
  using floor_divide_of_int_eq [of "numeral a" "numeral b", where ?'a = rat] by simp

lemma pow2_powi: "pow2 k = 2 powi k"
  by (simp add: pow2_def power_int_def power_one_over inverse_eq_divide)

lemma pow2_pos [simp]: "0 < pow2 k"
  by (simp add: pow2_powi)

lemma pow2_sign [simp]: "0 \<le> pow2 k" "\<not> pow2 k < 0" "\<not> pow2 k \<le> 0" "pow2 k \<noteq> 0"
  using pow2_pos [of k] by linarith+

lemma pow2_add: "pow2 (j + k) = pow2 j * pow2 k"
  by (simp add: pow2_powi power_int_add)

lemma pow2_Suc: "pow2 (k + 1) = 2 * pow2 k"
  by (simp add: pow2_powi power_int_add)

lemma pow2_pred: "pow2 (k - 1) = pow2 k / 2"
  using pow2_Suc [of "k - 1"] by simp

lemma pow2_0 [simp]: "pow2 0 = 1"
  by (simp add: pow2_def)

lemma pow2_mono: "j \<le> k \<Longrightarrow> pow2 j \<le> pow2 k"
  by (simp add: pow2_powi power_int_increasing)

lemma pow2_nat: "0 \<le> k \<Longrightarrow> pow2 k = of_int (2 ^ nat k)"
  by (simp add: pow2_def)

lemma ilog2_bounds:
  assumes "0 < x"
  shows "pow2 (ilog2 x) \<le> x \<and> x < pow2 (ilog2 x + 1)"
  using assms
proof (induction x rule: ilog2.induct)
  case (1 x)
  show ?case
  proof (cases "2 \<le> x")
    case True
    define e where "e = ilog2 (x / 2)"
    have eq: "ilog2 x = e + 1"
      using "1.prems" True by (simp add: ilog2.simps [of x] e_def)
    have ih: "pow2 e \<le> x / 2 \<and> x / 2 < pow2 (e + 1)"
      using "1.IH"(1) "1.prems" True by (simp add: e_def)
    have "pow2 (e + 1) = 2 * pow2 e" "pow2 (e + 1 + 1) = 2 * pow2 (e + 1)"
      by (rule pow2_Suc)+
    with ih show ?thesis unfolding eq by linarith
  next
    case False
    show ?thesis
    proof (cases "x < 1")
      case True
      define e where "e = ilog2 (x * 2)"
      have eq: "ilog2 x = e - 1"
        using "1.prems" False True by (simp add: ilog2.simps [of x] e_def)
      have ih: "pow2 e \<le> x * 2 \<and> x * 2 < pow2 (e + 1)"
        using "1.IH"(2) "1.prems" False True by (simp add: e_def)
      have "pow2 (e - 1) = pow2 e / 2" by (rule pow2_pred)
      moreover have "pow2 (e + 1) = 2 * pow2 e" by (rule pow2_Suc)
      moreover have "pow2 (e - 1 + 1) = pow2 e" by simp
      ultimately show ?thesis using ih unfolding eq by linarith
    next
      case nl: False
      then have eq: "ilog2 x = 0" using "1.prems" False by (simp add: ilog2.simps [of x])
      have "pow2 (0 + 1) = 2" using pow2_Suc [of 0] by simp
      then show ?thesis unfolding eq using False nl by simp
    qed
  qed
qed

lemma roundHalfEven_error: "\<bar>of_int (roundHalfEven z) - z\<bar> \<le> 1 / 2"
proof -
  define n where "n = \<lfloor>z\<rfloor>"
  have b: "of_int n \<le> z" "z < of_int n + 1" unfolding n_def by linarith+
  consider "z - of_int n < 1 / 2" | "1 / 2 < z - of_int n" | "z - of_int n = 1 / 2"
    by linarith
  then show ?thesis
  proof cases
    case 1
    then have "roundHalfEven z = n" by (simp add: roundHalfEven_def n_def Let_def)
    then show ?thesis using b 1 by simp
  next
    case 2
    then have "roundHalfEven z = n + 1" by (simp add: roundHalfEven_def n_def Let_def)
    then show ?thesis using b 2 by simp
  next
    case 3
    then have "roundHalfEven z = n \<or> roundHalfEven z = n + 1"
      by (simp add: roundHalfEven_def n_def Let_def)
    then show ?thesis using b 3 by auto
  qed
qed

lemma roundHalfEven_of_int [simp]: "roundHalfEven (of_int m) = m"
  by (simp add: roundHalfEven_def)

lemma roundHalfEven_nonneg: "0 \<le> z \<Longrightarrow> 0 \<le> roundHalfEven z"
proof -
  assume z: "0 \<le> z"
  have "z - 1 / 2 \<le> of_int (roundHalfEven z)" using roundHalfEven_error [of z] by linarith
  then have "(- 1::rat) < of_int (roundHalfEven z)" using z by linarith
  then show ?thesis by linarith
qed

lemma roundHalfEven_nonpos: "z \<le> 0 \<Longrightarrow> roundHalfEven z \<le> 0"
proof -
  assume z: "z \<le> 0"
  have "of_int (roundHalfEven z) \<le> z + 1 / 2" using roundHalfEven_error [of z] by linarith
  then have "(of_int (roundHalfEven z) :: rat) < 1" using z by linarith
  then show ?thesis by linarith
qed

lemma roundHalfEven_pos: "1 \<le> z \<Longrightarrow> 1 \<le> roundHalfEven z"
proof -
  assume z: "1 \<le> z"
  have "z - 1 / 2 \<le> of_int (roundHalfEven z)" using roundHalfEven_error [of z] by linarith
  then have "(0::rat) < of_int (roundHalfEven z)" using z by linarith
  then show ?thesis by linarith
qed

lemma quantum_pos [simp]: "0 < quantum x"
  by (simp add: quantum_def)

lemma quantum_sign [simp]:
  "0 \<le> quantum x" "\<not> quantum x < 0" "\<not> quantum x \<le> 0" "quantum x \<noteq> 0"
  using quantum_pos [of x] by linarith+

lemma rnd_not_NaN [simp]: "rnd x \<noteq> NaN"
  by (simp add: rnd_def Let_def)

lemma ilog2_0 [simp]: "ilog2 0 = 0"
  by (simp add: ilog2.simps)

lemma rnd_0 [simp]: "rnd 0 = Fin 0"
proof -
  have "roundHalfEven (0 / quantum 0) = 0" using roundHalfEven_of_int [of 0] by simp
  moreover have "\<not> pow2 1024 \<le> 0" by simp
  moreover have "\<not> (0::rat) \<le> - pow2 1024" by simp
  ultimately show ?thesis by (simp add: rnd_def Let_def)
qed

lemma pow2_inverse: "pow2 k * pow2 (- k) = 1"
  using pow2_add [of k "- k"] by simp

lemma onGrid_iff: "onGrid v \<longleftrightarrow> (\<exists>m::int. v = of_int m * pow2 (- 1074))"
proof
  assume "onGrid v"
  then have "of_int \<lfloor>v * pow2 1074\<rfloor> * pow2 (- 1074) = v * (pow2 1074 * pow2 (- 1074))"
    by (simp add: onGrid_def)
  then have "v = of_int \<lfloor>v * pow2 1074\<rfloor> * pow2 (- 1074)"
    by (simp only: pow2_inverse mult_1_right)
  then show "\<exists>m::int. v = of_int m * pow2 (- 1074)" by blast
next
  assume "\<exists>m::int. v = of_int m * pow2 (- 1074)"
  then obtain m :: int where "v = of_int m * pow2 (- 1074)" by blast
  then have "v * pow2 1074 = of_int m * (pow2 1074 * pow2 (- 1074))" by simp
  then have "v * pow2 1074 = of_int m" by (simp only: pow2_inverse mult_1_right)
  then show "onGrid v" by (simp add: onGrid_def)
qed

lemma onGrid_of_int [simp]: "onGrid (of_int m)"
proof -
  have "pow2 1074 = of_int (2 ^ nat 1074)" by (rule pow2_nat) simp
  then have "(of_int m :: rat) * pow2 1074 = of_int (m * 2 ^ nat 1074)" by simp
  then show ?thesis unfolding onGrid_def by (simp only: floor_of_int)
qed

lemma onGrid_diff: "onGrid a \<Longrightarrow> onGrid b \<Longrightarrow> onGrid (a - b)"
proof -
  assume "onGrid a" "onGrid b"
  then obtain m n :: int where "a = of_int m * pow2 (- 1074)" "b = of_int n * pow2 (- 1074)"
    unfolding onGrid_iff by blast
  then have "a - b = of_int (m - n) * pow2 (- 1074)" by (simp add: algebra_simps)
  then show ?thesis unfolding onGrid_iff by blast
qed

lemma onGrid_pos: "onGrid d \<Longrightarrow> 0 < d \<Longrightarrow> pow2 (- 1074) \<le> d"
proof -
  assume "onGrid d" "0 < d"
  then obtain m :: int where d: "d = of_int m * pow2 (- 1074)" unfolding onGrid_iff by blast
  with \<open>0 < d\<close> have "0 < (of_int m :: rat)" by (simp add: zero_less_mult_iff)
  then have "0 < m" by simp
  then have "1 \<le> m" by simp
  then have "1 \<le> (of_int m :: rat)" by simp
  then have "1 * pow2 (- 1074) \<le> of_int m * pow2 (- 1074)"
    by (intro mult_right_mono) simp_all
  then show ?thesis using d by simp
qed

lemma quantum_grid: "\<exists>k\<ge>- 1074. quantum x = pow2 k"
  unfolding quantum_def by (intro exI [of _ "max (ilog2 \<bar>x\<bar>) (- 1022) - 52"]) simp

lemma quantum_le:
  assumes "pow2 (- 1074) \<le> d"
  shows "quantum d \<le> d"
proof -
  have p: "0 < d" using assms pow2_pos [of "- 1074"] by linarith
  have b: "pow2 (ilog2 d) \<le> d" using ilog2_bounds [OF p] by simp
  show ?thesis
  proof (cases "- 1022 \<le> ilog2 d")
    case True
    then have "quantum d = pow2 (ilog2 d - 52)" using p by (simp add: quantum_def max_def)
    also have "\<dots> \<le> pow2 (ilog2 d)" by (rule pow2_mono) simp
    finally show ?thesis using b by linarith
  next
    case False
    then have "quantum d = pow2 (- 1074)" using p by (simp add: quantum_def max_def)
    then show ?thesis using assms by simp
  qed
qed

lemma rnd_cases:
  obtains (fin) "rnd x = Fin (of_int (roundHalfEven (x / quantum x)) * quantum x)"
    "\<not> pow2 1024 \<le> of_int (roundHalfEven (x / quantum x)) * quantum x"
    "\<not> of_int (roundHalfEven (x / quantum x)) * quantum x \<le> - pow2 1024"
  | (pinf) "rnd x = PInf" "pow2 1024 \<le> of_int (roundHalfEven (x / quantum x)) * quantum x"
  | (ninf) "rnd x = NInf" "of_int (roundHalfEven (x / quantum x)) * quantum x \<le> - pow2 1024"
proof -
  let ?y = "of_int (roundHalfEven (x / quantum x)) * quantum x"
  consider "pow2 1024 \<le> ?y" | "\<not> pow2 1024 \<le> ?y" "?y \<le> - pow2 1024"
    | "\<not> pow2 1024 \<le> ?y" "\<not> ?y \<le> - pow2 1024"
    by blast
  then show thesis
  proof cases
    case 1
    then have "rnd x = PInf" by (simp add: rnd_def Let_def)
    then show thesis using 1 by (rule pinf)
  next
    case 2
    then have "rnd x = NInf" by (simp add: rnd_def Let_def)
    then show thesis using 2(2) by (rule ninf)
  next
    case 3
    then have "rnd x = Fin ?y" by (simp add: rnd_def Let_def)
    then show thesis using 3 by (rule fin)
  qed
qed

lemma onGrid_rnd: "rnd x = Fin v \<Longrightarrow> onGrid v"
proof -
  assume a: "rnd x = Fin v"
  obtain k where k: "- 1074 \<le> k" "quantum x = pow2 k" using quantum_grid by blast
  have v: "v = of_int (roundHalfEven (x / quantum x)) * quantum x"
    using a by (cases x rule: rnd_cases) simp_all
  have "pow2 k = pow2 (k + 1074) * pow2 (- 1074)" using pow2_add [of "k + 1074" "- 1074"] by simp
  also have "pow2 (k + 1074) = of_int (2 ^ nat (k + 1074))" using k by (simp add: pow2_nat)
  finally have "v = of_int (roundHalfEven (x / quantum x) * 2 ^ nat (k + 1074)) * pow2 (- 1074)"
    using v k by simp
  then show ?thesis unfolding onGrid_iff by blast
qed

lemma rnd_pos:
  assumes "pow2 (- 1074) \<le> d"
  shows "greater (rnd d) (Fin 0)"
proof -
  have "1 \<le> d / quantum d" using quantum_le [OF assms] by (simp add: le_divide_eq)
  then have "1 \<le> roundHalfEven (d / quantum d)" by (rule roundHalfEven_pos)
  then have "(1::rat) \<le> of_int (roundHalfEven (d / quantum d))" by linarith
  then have "0 < of_int (roundHalfEven (d / quantum d)) * quantum d"
    by (intro mult_pos_pos) (linarith, simp)
  then show ?thesis
    using pow2_pos [of 1024] by (cases d rule: rnd_cases) (simp_all add: greater_def)
qed

lemma rnd_nonpos:
  assumes "d \<le> 0"
  shows "\<not> greater (rnd d) (Fin 0)"
proof -
  have "d / quantum d \<le> 0" using assms by (simp add: divide_le_0_iff)
  then have "roundHalfEven (d / quantum d) \<le> 0" by (rule roundHalfEven_nonpos)
  then have "(of_int (roundHalfEven (d / quantum d)) :: rat) \<le> 0" by linarith
  then have "of_int (roundHalfEven (d / quantum d)) * quantum d \<le> 0"
    by (simp add: mult_le_0_iff)
  then show ?thesis
    using pow2_pos [of 1024] by (cases d rule: rnd_cases) (simp_all add: greater_def)
qed

lemma rnd_nonneg:
  assumes "0 \<le> d"
  shows "\<not> greater (Fin 0) (rnd d)"
proof -
  have "0 \<le> d / quantum d" using assms by (simp add: zero_le_divide_iff)
  then have "0 \<le> roundHalfEven (d / quantum d)" by (rule roundHalfEven_nonneg)
  then have "(0::rat) \<le> of_int (roundHalfEven (d / quantum d))" by linarith
  then have "0 \<le> of_int (roundHalfEven (d / quantum d)) * quantum d" by simp
  then show ?thesis
    using pow2_pos [of 1024] by (cases d rule: rnd_cases) (simp_all add: greater_def)
qed

lemma greater_rnd_grid:
  assumes "onGrid d"
  shows "greater (rnd d) (Fin 0) \<longleftrightarrow> 0 < d"
  using rnd_pos [OF onGrid_pos [OF assms]] rnd_nonpos [of d] by (cases "0 < d") auto

lemma greater_fsub:
  assumes "regular a" and "regular b"
  shows "greater (fsub a b) (Fin 0) \<longleftrightarrow> greater a b"
proof (cases a)
  case (Fin x)
  show ?thesis
  proof (cases b)
    case b: (Fin y)
    have "onGrid (x - y)" using assms Fin b by (simp add: regular_def onGrid_diff)
    then show ?thesis using Fin b greater_rnd_grid [of "x - y"]
      by (simp add: fsub_def fadd_def fneg_def greater_def)
  qed (use Fin assms in \<open>simp_all add: fsub_def fadd_def fneg_def greater_def regular_def\<close>)
next
  case PInf
  then show ?thesis using assms
    by (cases b) (simp_all add: fsub_def fadd_def fneg_def greater_def regular_def)
next
  case NInf
  then show ?thesis using assms
    by (cases b) (simp_all add: fsub_def fadd_def fneg_def greater_def regular_def)
next
  case NaN
  then show ?thesis using assms by (simp add: regular_def)
qed

lemma greater_rank:
  assumes "a \<noteq> NaN" and "b \<noteq> NaN"
  shows "greater a b \<longleftrightarrow> rank b < rank a"
  using assms by (cases a; cases b) (simp_all add: greater_def rank_def)

lemma rank_inj: "rank a = rank b \<Longrightarrow> a = b"
  by (cases a; cases b) (simp_all add: rank_def)

lemma regular_not_NaN: "regular a \<Longrightarrow> a \<noteq> NaN"
  by (auto simp: regular_def)

lemma regular_toFixed: "a \<noteq> NaN \<Longrightarrow> regular (toFixed f a)"
proof (cases a)
  case (Fin x)
  show ?thesis
  proof (cases "rnd (roundDecimal f x)")
    case r: (Fin v)
    then show ?thesis using Fin onGrid_rnd [OF r] by (simp add: toFixed_def regular_def)
  qed (use Fin in \<open>simp_all add: toFixed_def regular_def\<close>)
qed (simp_all add: toFixed_def regular_def)

lemma fadd_Fin_not_NaN: "a \<noteq> NaN \<Longrightarrow> fadd a (Fin x) \<noteq> NaN"
  by (cases a) (simp_all add: fadd_def)

lemma floatSum_snoc: "floatSum (xs @ [x]) = fadd (floatSum xs) (Fin x)"
  by (simp add: floatSum_def)

lemma floatSum_not_NaN [simp]: "floatSum xs \<noteq> NaN"
  by (induction xs rule: rev_induct) (simp_all add: floatSum_def fadd_Fin_not_NaN)

section \<open>Grouping by key\<close>

lemma firstSeen_Nil [simp]: "firstSeen [] = []"
  by (simp add: firstSeen_def)

lemma firstSeen_snoc:
  "firstSeen (xs @ [x]) = (if x \<in> set xs then firstSeen xs else firstSeen xs @ [x])"
  by (simp add: firstSeen_def)

lemma set_firstSeen [simp]: "set (firstSeen xs) = set xs"
  by (simp add: firstSeen_def)

lemma distinct_firstSeen [simp]: "distinct (firstSeen xs)"
  by (simp add: firstSeen_def)

lemma floatSum_Nil [simp]: "floatSum [] = Fin 0"
  by (simp add: floatSum_def)

lemma groupSum_snoc:
  "groupSum key val (ts @ [t]) k =
     (if key t = k then fadd (groupSum key val ts k) (Fin (val t)) else groupSum key val ts k)"
  by (simp add: groupSum_def floatSum_snoc)

lemma groupSum_not_NaN [simp]: "groupSum key val ts k \<noteq> NaN"
  by (simp add: groupSum_def)

lemma groupSum_absent: "k \<notin> set (map key ts) \<Longrightarrow> groupSum key val ts k = Fin 0"
proof -
  assume "k \<notin> set (map key ts)"
  then have "filter (\<lambda>t. key t = k) ts = []"
    by (auto simp: filter_empty_conv)
  then show ?thesis by (simp add: groupSum_def)
qed

lemma map_fst_grouped [simp]: "map fst (grouped key val ts) = firstSeen (map key ts)"
  by (simp add: grouped_def comp_def)

lemma map_of_grouped:
  "map_of (grouped key val ts) k =
     (if k \<in> set (map key ts) then Some (Num (groupSum key val ts k)) else None)"
proof -
  have "map_of (map (\<lambda>k. (k, Num (groupSum key val ts k))) ks) k =
        (if k \<in> set ks then Some (Num (groupSum key val ts k)) else None)" for ks
    by (induction ks) auto
  then show ?thesis by (simp add: grouped_def)
qed

lemma fadd_orZero:
  assumes "s \<noteq> NaN"
  shows "jsAdd (orZero (Some (Num s))) (Num (Fin v)) = Num (fadd s (Fin v))"
  using assms by (auto simp: orZero_def jsAdd_def falsy_def)

lemma accumulate_grouped:
  assumes "key t \<notin> set objectPrototypeNames"
  shows "accumulate key val (grouped key val ts) t = grouped key val (ts @ [t])"
proof (cases "key t \<in> set (map key ts)")
  case True
  have proto: "key t \<noteq> ''__proto__''"
    using assms by (auto simp: objectPrototypeNames_def)
  have get: "getProp (grouped key val ts) (key t) = Some (Num (groupSum key val ts (key t)))"
    using True by (simp add: getProp_def map_of_grouped)
  have val: "jsAdd (orZero (getProp (grouped key val ts) (key t))) (Num (Fin (val t))) =
             Num (fadd (groupSum key val ts (key t)) (Fin (val t)))"
    unfolding get by (rule fadd_orZero) simp
  have "setProp (grouped key val ts) (key t) (Num (fadd (groupSum key val ts (key t)) (Fin (val t)))) =
        map (\<lambda>(k', v'). if k' = key t then (k', Num (fadd (groupSum key val ts (key t)) (Fin (val t)))) else (k', v'))
          (grouped key val ts)"
    using True proto by (simp add: setProp_def)
  also have "\<dots> = grouped key val (ts @ [t])"
    using True by (auto simp: grouped_def firstSeen_snoc groupSum_snoc)
  finally show ?thesis by (simp add: accumulate_def val)
next
  case False
  have proto: "key t \<noteq> ''__proto__''"
    using assms by (auto simp: objectPrototypeNames_def)
  have get: "getProp (grouped key val ts) (key t) = None"
    using False assms by (simp add: getProp_def map_of_grouped)
  have val: "jsAdd (orZero (getProp (grouped key val ts) (key t))) (Num (Fin (val t))) =
             Num (fadd (Fin 0) (Fin (val t)))"
    by (simp add: get orZero_def jsAdd_def)
  have "setProp (grouped key val ts) (key t) (Num (fadd (Fin 0) (Fin (val t)))) =
        grouped key val ts @ [(key t, Num (fadd (Fin 0) (Fin (val t))))]"
    using False proto by (simp add: setProp_def)
  also have "\<dots> = grouped key val (ts @ [t])"
    using False by (auto simp: grouped_def firstSeen_snoc groupSum_snoc groupSum_absent)
  finally show ?thesis by (simp add: accumulate_def val)
qed

lemma foldl_accumulate:
  assumes "\<forall>t\<in>set ts. key t \<notin> set objectPrototypeNames"
  shows "foldl (accumulate key val) [] ts = grouped key val ts"
  using assms
proof (induction ts rule: rev_induct)
  case Nil
  show ?case by (simp add: grouped_def)
next
  case (snoc t ts)
  then show ?case by (simp add: accumulate_grouped)
qed

lemma foldl_pair:
  "foldl (\<lambda>(a, b) t. (f a t, g b t)) (a0, b0) ts = (foldl f a0 ts, foldl g b0 ts)"
  by (induction ts arbitrary: a0 b0) simp_all

lemma insertSorted_insort_key:
  assumes "\<forall>y\<in>set ys. greater (cmp x y) (Fin 0) \<longleftrightarrow> \<not> k x \<le> k y"
  shows "insertSorted cmp x ys = insort_key k x ys"
  using assms by (induction ys) simp_all

lemma arraySort_sort_key:
  assumes "\<forall>x\<in>set xs. \<forall>y\<in>set xs. greater (cmp x y) (Fin 0) \<longleftrightarrow> \<not> k x \<le> k y"
  shows "arraySort cmp xs = sort_key k xs"
  using assms
proof (induction xs)
  case Nil
  show ?case by (simp add: arraySort_def)
next
  case (Cons x xs)
  then have ih: "arraySort cmp xs = sort_key k xs" by simp
  have "insertSorted cmp x (sort_key k xs) = insort_key k x (sort_key k xs)"
    using Cons.prems by (intro insertSorted_insort_key) simp
  then show ?case using ih by (simp add: arraySort_def)
qed

lemma insort_key_map:
  "insort_key g (h x) (map h xs) = map h (insort_key (\<lambda>y. g (h y)) x xs)"
  by (induction xs) simp_all

lemma sort_key_map: "sort_key g (map h xs) = map h (sort_key (\<lambda>y. g (h y)) xs)"
  by (induction xs) (simp_all add: insort_key_map)

lemma entries_keyed:
  "entries (map (\<lambda>k. (k, f k)) ks) = map (\<lambda>k. (k, f k)) (keyOrder ks)"
proof -
  have a: "filter (\<lambda>(k, v). isArrayIndex k) (map (\<lambda>k. (k, f k)) ks) =
           map (\<lambda>k. (k, f k)) (filter isArrayIndex ks)"
    by (induction ks) simp_all
  have b: "filter (\<lambda>(k, v). \<not> isArrayIndex k) (map (\<lambda>k. (k, f k)) ks) =
           map (\<lambda>k. (k, f k)) (filter (\<lambda>k. \<not> isArrayIndex k) ks)"
    by (induction ks) simp_all
  show ?thesis
    by (simp add: entries_def keyOrder_def a b sort_key_map)
qed

lemma entries_grouped:
  "entries (grouped key val ts) =
     map (\<lambda>k. (k, Num (groupSum key val ts k))) (keyOrder (firstSeen (map key ts)))"
  unfolding grouped_def by (rule entries_keyed)

lemma keyOrder_no_index:
  assumes "\<forall>k\<in>set ks. \<not> isArrayIndex k"
  shows "keyOrder ks = ks"
proof -
  have "filter isArrayIndex ks = []" using assms by (simp add: filter_empty_conv)
  moreover have "filter (\<lambda>k. \<not> isArrayIndex k) ks = ks" using assms by (simp add: filter_id_conv)
  ultimately show ?thesis by (simp add: keyOrder_def)
qed

lemma set_keyOrder [simp]: "set (keyOrder ks) = set ks"
  by (auto simp: keyOrder_def)

lemma distinct_keyOrder [simp]: "distinct ks \<Longrightarrow> distinct (keyOrder ks)"
  by (auto simp: keyOrder_def)

lemma mapE_all_Inr:
  assumes "\<forall>x\<in>set xs. f x = Inr (g x)"
  shows "mapE f xs = Inr (map g xs)"
  using assms by (induction xs) simp_all

lemma mapE_Inl:
  assumes "mapE f xs = Inl e"
  shows "\<exists>x\<in>set xs. f x = Inl e"
  using assms by (induction xs) (auto split: sum.splits)

lemma foldl_jsAdd_Num:
  "foldl (\<lambda>sum (k, a). jsAdd sum a) (Num s) (map (\<lambda>k. (k, Num (f k))) ks) =
     Num (foldl fadd s (map f ks))"
  by (induction ks arbitrary: s) (simp_all add: jsAdd_def)

lemma category_fold:
  "foldl (\<lambda>(tot, cnt) t.
            (setProp tot (category t)
               (jsAdd (orZero (getProp tot (category t))) (Num (Fin (amount t)))),
             setProp cnt (category t)
               (jsAdd (orZero (getProp cnt (category t))) (Num (Fin 1)))))
         ([], []) ts =
   (foldl (accumulate category amount) [] ts, foldl (accumulate category (\<lambda>t. 1)) [] ts)"
  unfolding accumulate_def by (rule foldl_pair)

lemma rankDesc_le: "rankDesc a \<le> rankDesc b \<longleftrightarrow> rank b \<le> rank a"
  by (cases "rank a"; cases "rank b") (auto simp: rankDesc_def less_eq_prod_def)

lemma rankDesc_less: "rankDesc a < rankDesc b \<longleftrightarrow> rank b < rank a"
  by (cases "rank a"; cases "rank b") (auto simp: rankDesc_def less_prod_def)

lemma rankDesc_inj: "rankDesc a = rankDesc b \<Longrightarrow> a = b"
proof -
  assume "rankDesc a = rankDesc b"
  then have "rank a = rank b"
    by (cases "rank a"; cases "rank b") (simp add: rankDesc_def)
  then show ?thesis by (rule rank_inj)
qed

lemma descending_comparison:
  assumes "regular a" and "regular b"
  shows "greater (fsub b a) (Fin 0) \<longleftrightarrow> \<not> rankDesc a \<le> rankDesc b"
proof -
  have "greater (fsub b a) (Fin 0) \<longleftrightarrow> rank a < rank b"
    using greater_fsub [OF assms(2) assms(1)] greater_rank [of b a] assms
    by (simp add: regular_not_NaN)
  then show ?thesis by (auto simp: rankDesc_le)
qed

lemma categoryRow_sel [simp]:
  "categoryName (categoryRow ts k) = k"
  "categoryAmount (categoryRow ts k) = toFixed 2 (groupSum category amount ts k)"
  by (simp_all add: categoryRow_def Let_def)

lemma regular_categoryRow [simp]: "regular (categoryAmount (categoryRow ts k))"
  by (simp add: regular_toFixed)

lemma analyzeCategoricalSpending_closed:
  assumes "\<forall>t\<in>set ts. category t \<notin> set objectPrototypeNames"
  shows "analyzeCategoricalSpending ts =
           Inr (sort_key (\<lambda>c. rankDesc (categoryAmount c))
                  (map (categoryRow ts) (keyOrder (firstSeen (map category ts)))))"
proof -
  let ?ks = "keyOrder (firstSeen (map category ts))"
  let ?tot = "grouped category amount ts"
  let ?cnt = "grouped category (\<lambda>t. 1) ts"
  have total: "foldl (\<lambda>sum (k, a). jsAdd sum a) (Num (Fin 0)) (entries ?tot) = Num (categoryTotal ts)"
    by (simp add: entries_grouped foldl_jsAdd_Num categoryTotal_def)
  have rows: "mapE (categoryOf ?cnt (Num (categoryTotal ts))) (entries ?tot) = Inr (map (categoryRow ts) ?ks)"
    unfolding entries_grouped
    by (simp add: mapE_all_Inr [where g = "\<lambda>e. categoryRow ts (fst e)"] categoryOf_def categoryRow_def Let_def comp_def)
  have sort: "arraySort (\<lambda>a b. fsub (categoryAmount b) (categoryAmount a)) (map (categoryRow ts) ?ks) =
              sort_key (\<lambda>c. rankDesc (categoryAmount c)) (map (categoryRow ts) ?ks)"
    by (rule arraySort_sort_key) (simp add: descending_comparison regular_toFixed)
  show ?thesis
    by (simp add: analyzeCategoricalSpending_def category_fold foldl_accumulate assms total rows sort)
qed

lemma distinct_categoryRows:
  assumes "distinct ks"
  shows "distinct (map (categoryRow ts) ks)"
proof -
  have "inj_on (categoryRow ts) (set ks)"
  proof (rule inj_onI)
    fix j k
    assume "categoryRow ts j = categoryRow ts k"
    then have "categoryName (categoryRow ts j) = categoryName (categoryRow ts k)" by simp
    then show "j = k" by (simp add: categoryRow_def Let_def)
  qed
  with assms show ?thesis by (simp add: distinct_map)
qed

lemma toFixed_not_NaN [simp]: "a \<noteq> NaN \<Longrightarrow> toFixed f a \<noteq> NaN"
  by (rule regular_not_NaN) (rule regular_toFixed)

lemma lessEq_iff: "a \<noteq> NaN \<Longrightarrow> b \<noteq> NaN \<Longrightarrow> lessEq a b \<longleftrightarrow> \<not> greater a b"
  by (simp add: lessEq_def)

lemma lessEq_rank: "a \<noteq> NaN \<Longrightarrow> b \<noteq> NaN \<Longrightarrow> lessEq a b \<longleftrightarrow> rank a \<le> rank b"
  by (simp add: lessEq_def greater_rank not_less)

lemma less_rank: "a \<noteq> NaN \<Longrightarrow> b \<noteq> NaN \<Longrightarrow> less a b \<longleftrightarrow> rank a < rank b"
  by (simp add: less_def greater_rank)

section \<open>The status bands\<close>

lemma getBudgetStatus_bands:
  assumes "u \<noteq> NaN"
  shows "(lessEq u (Fin 50) \<longrightarrow> getBudgetStatus u = ''Conservative'') \<and>
   (greater u (Fin 50) \<and> lessEq u (Fin 75) \<longrightarrow> getBudgetStatus u = ''Moderate'') \<and>
   (greater u (Fin 75) \<and> lessEq u (Fin 90) \<longrightarrow> getBudgetStatus u = ''High'') \<and>
   (greater u (Fin 90) \<and> lessEq u (Fin 100) \<longrightarrow> getBudgetStatus u = ''Near Limit'') \<and>
   (greater u (Fin 100) \<longrightarrow> getBudgetStatus u = ''Over Budget'')"
  using assms by (cases u) (auto simp: getBudgetStatus_def lessEq_def greater_def)

lemma foldl_amount_floatSum:
  "foldl (\<lambda>sum t. fadd sum (Fin (amount t))) a ts = foldl (\<lambda>s x. fadd s (Fin x)) a (map amount ts)"
  by (induction ts arbitrary: a) simp_all

lemma fdiv_not_NaN: "a \<noteq> NaN \<Longrightarrow> 0 < y \<Longrightarrow> fdiv a (Fin y) \<noteq> NaN"
  by (cases a) (auto simp: fdiv_def infinity_def sign_def)

lemma fmul_not_NaN: "a \<noteq> NaN \<Longrightarrow> 0 < y \<Longrightarrow> fmul a (Fin y) \<noteq> NaN"
  by (cases a) (auto simp: fmul_def infinity_def sign_def)

lemma roundDecimal_minus: "roundDecimal f (- x) = - roundDecimal f x"
  by (cases "x = 0") (auto simp: roundDecimal_def)

lemma roundDecimal_form: "\<exists>n::int. roundDecimal f x = of_int n / 10 ^ f"
proof (cases "x < 0")
  case True
  then have "roundDecimal f x = of_int (- \<lfloor>(- x) * 10 ^ f + 1 / 2\<rfloor>) / 10 ^ f"
    by (simp add: roundDecimal_def)
  then show ?thesis by blast
next
  case False
  then have "roundDecimal f x = of_int \<lfloor>x * 10 ^ f + 1 / 2\<rfloor> / 10 ^ f"
    by (simp add: roundDecimal_def)
  then show ?thesis by blast
qed

lemma roundDecimal_error_nonneg:
  assumes "0 \<le> x"
  shows "\<bar>roundDecimal f x - x\<bar> \<le> 1 / (2 * 10 ^ f)"
proof -
  let ?p = "(10::rat) ^ f"
  let ?n = "\<lfloor>x * ?p + 1 / 2\<rfloor>"
  have p: "0 < ?p" by simp
  have lo: "of_int ?n \<le> x * ?p + 1 / 2" by (rule of_int_floor_le)
  have hi: "x * ?p + 1 / 2 < of_int ?n + 1"
    using floor_correct [of "x * ?p + 1 / 2"] by simp
  have a: "\<bar>of_int ?n - x * ?p\<bar> \<le> 1 / 2" using lo hi by linarith
  have "\<bar>of_int ?n - x * ?p\<bar> / ?p \<le> (1 / 2) / ?p"
    by (rule divide_right_mono [OF a]) simp
  moreover have "\<bar>of_int ?n - x * ?p\<bar> / ?p = \<bar>of_int ?n / ?p - x\<bar>"
  proof -
    have "of_int ?n / ?p - x = (of_int ?n - x * ?p) / ?p"
      using p by (simp add: field_simps)
    then show ?thesis using p by (simp add: abs_divide)
  qed
  ultimately show ?thesis using assms by (simp add: roundDecimal_def)
qed

lemma roundDecimal_error: "\<bar>roundDecimal f x - x\<bar> \<le> 1 / (2 * 10 ^ f)"
proof (cases "0 \<le> x")
  case True
  then show ?thesis by (rule roundDecimal_error_nonneg)
next
  case False
  then have "0 \<le> - x" by simp
  then have "\<bar>roundDecimal f (- x) - (- x)\<bar> \<le> 1 / (2 * 10 ^ f)"
    by (rule roundDecimal_error_nonneg)
  then show ?thesis by (simp add: roundDecimal_minus abs_minus_commute)
qed

section \<open>The timeline\<close>

lemma foldl_first_max:
  fixes h :: "'a \<Rightarrow> 'b::linorder"
  assumes "\<forall>d\<in>set (m # xs). \<forall>e\<in>set (m # xs). g d e \<longleftrightarrow> h e < h d"
  shows "\<exists>pre post. m # xs = pre @ foldl (\<lambda>max d. if g d max then d else max) m xs # post \<and>
           (\<forall>d\<in>set pre. h d < h (foldl (\<lambda>max d. if g d max then d else max) m xs)) \<and>
           (\<forall>d\<in>set post. h d \<le> h (foldl (\<lambda>max d. if g d max then d else max) m xs))"
  using assms
proof (induction xs rule: rev_induct)
  case Nil
  have "m # [] = [] @ m # []" by simp
  then show ?case by fastforce
next
  case (snoc x xs)
  let ?r = "foldl (\<lambda>max d. if g d max then d else max) m xs"
  have "\<forall>d\<in>set (m # xs). \<forall>e\<in>set (m # xs). g d e \<longleftrightarrow> h e < h d"
    using snoc.prems by simp
  with snoc.IH obtain pre post where
    dec: "m # xs = pre @ ?r # post" and
    pre: "\<forall>d\<in>set pre. h d < h ?r" and
    post: "\<forall>d\<in>set post. h d \<le> h ?r"
    by blast
  have "?r \<in> set (pre @ ?r # post)" by simp
  then have "?r \<in> set (m # xs)" by (simp only: dec)
  moreover have "set (m # xs) \<subseteq> set (m # xs @ [x])" by auto
  ultimately have "?r \<in> set (m # xs @ [x])" by (rule subsetD [rotated])
  moreover have "x \<in> set (m # xs @ [x])" by simp
  ultimately have g: "g x ?r \<longleftrightarrow> h ?r < h x"
    using snoc.prems by blast
  show ?case
  proof (cases "g x ?r")
    case True
    have "m # xs @ [x] = (pre @ ?r # post) @ x # []" using dec by simp
    moreover have "\<forall>d\<in>set (pre @ ?r # post). h d < h x"
      using pre post True g by auto
    ultimately show ?thesis using True
      by (intro exI [of _ "pre @ ?r # post"] exI [of _ "[]"]) simp
  next
    case False
    have "m # xs @ [x] = pre @ ?r # (post @ [x])" using dec by simp
    moreover have "\<forall>d\<in>set (post @ [x]). h d \<le> h ?r"
      using post False g by auto
    ultimately show ?thesis using False pre
      by (intro exI [of _ pre] exI [of _ "post @ [x]"]) simp
  qed
qed

lemma foldl_first_max_list:
  fixes h :: "'a \<Rightarrow> 'b::linorder"
  assumes "ds \<noteq> []" and "\<forall>d\<in>set ds. \<forall>e\<in>set ds. g d e \<longleftrightarrow> h e < h d"
  shows "\<exists>pre post. ds = pre @ foldl (\<lambda>max d. if g d max then d else max) (hd ds) ds # post \<and>
           (\<forall>d\<in>set pre. h d < h (foldl (\<lambda>max d. if g d max then d else max) (hd ds) ds)) \<and>
           (\<forall>d\<in>set post. h d \<le> h (foldl (\<lambda>max d. if g d max then d else max) (hd ds) ds))"
proof -
  define r where "r = foldl (\<lambda>max d. if g d max then d else max) (hd ds) ds"
  have "\<forall>d\<in>set (hd ds # ds). \<forall>e\<in>set (hd ds # ds). g d e \<longleftrightarrow> h e < h d"
    using assms by simp
  from foldl_first_max [OF this] obtain pre post where
    dec: "hd ds # ds = pre @ r # post" and
    pre: "\<forall>d\<in>set pre. h d < h r" and
    post: "\<forall>d\<in>set post. h d \<le> h r"
    unfolding r_def by blast
  have "\<exists>pre post. ds = pre @ r # post \<and> (\<forall>d\<in>set pre. h d < h r) \<and> (\<forall>d\<in>set post. h d \<le> h r)"
  proof (cases pre)
    case Nil
    have e: "hd ds # ds = r # post" using dec unfolding Nil by (simp only: append_Nil)
    have r: "r = hd ds" using e by (metis list.inject)
    have p: "post = ds" using e by (metis list.inject)
    have 1: "ds = [] @ r # tl ds" using assms r by simp
    have "set (tl ds) \<subseteq> set ds" using assms by (auto dest: list.set_sel(2))
    then have 2: "\<forall>d\<in>set (tl ds). h d \<le> h r" using post p by auto
    have 3: "\<forall>d\<in>set ([]::'a list). h d < h r" by simp
    from 1 2 3 show ?thesis by blast
  next
    case (Cons p pre')
    then have "ds = pre' @ r # post" using dec by simp
    moreover have "\<forall>d\<in>set pre'. h d < h r" using pre Cons by simp
    ultimately show ?thesis using post by blast
  qed
  then show ?thesis unfolding r_def .
qed

lemma dayRow_sel [simp]:
  "dayDate (dayRow ts k) = Some k"
  "dayAmount (dayRow ts k) = toFixed 2 (groupSum date amount ts k)"
  by (simp_all add: dayRow_def)

lemma daily_fold:
  "foldl (\<lambda>obj t. setProp obj (date t) (jsAdd (orZero (getProp obj (date t))) (Num (Fin (amount t))))) [] ts =
   foldl (accumulate date amount) [] ts"
  unfolding accumulate_def ..

lemma greater_fsub_of_int:
  "greater (fsub (Fin (of_int a)) (Fin (of_int b))) (Fin 0) \<longleftrightarrow> \<not> a \<le> b"
proof -
  have "regular (Fin (of_int a))" "regular (Fin (of_int b))"
    by (simp_all add: regular_def)
  from greater_fsub [OF this] show ?thesis by (auto simp: greater_def)
qed

lemma analyzeSpendingTimeline_closed:
  assumes "\<forall>t\<in>set ts. date t \<notin> set objectPrototypeNames"
  shows "analyzeSpendingTimeline dateValue ts =
     (let sortedDays = sort_key (timeOf dateValue) (map (dayRow ts) (keyOrder (firstSeen (map date ts))))
      in Inr \<lparr>dailySpending = sortedDays,
               highestSpendingDay =
                 foldl (\<lambda>max d. if greater (dayAmount d) (dayAmount max) then d else max)
                   (firstOrDefault sortedDays) sortedDays,
               lowestSpendingDay =
                 foldl (\<lambda>min d. if less (dayAmount d) (dayAmount min) then d else min)
                   (firstOrDefault sortedDays) sortedDays\<rparr>)"
proof -
  let ?ks = "keyOrder (firstSeen (map date ts))"
  have rows: "mapE dayOf (entries (grouped date amount ts)) = Inr (map (dayRow ts) ?ks)"
    unfolding entries_grouped
    by (simp add: mapE_all_Inr [where g = "\<lambda>e. dayRow ts (fst e)"] dayOf_def dayRow_def comp_def)
  have sort: "arraySort (\<lambda>a b. fsub (Fin (of_int (timeOf dateValue a))) (Fin (of_int (timeOf dateValue b)))) ds =
              sort_key (timeOf dateValue) ds" for ds :: "day list"
    by (rule arraySort_sort_key) (simp add: greater_fsub_of_int)
  show ?thesis
    by (simp add: analyzeSpendingTimeline_def daily_fold foldl_accumulate assms rows sort Let_def)
qed

section \<open>Errors of the analysis\<close>

lemma categoryOf_Inl: "categoryOf cnt tot e = Inl err \<Longrightarrow> err = TypeError"
  by (auto simp: categoryOf_def split: prod.splits jsvalue.splits)

lemma dayOf_Inl: "dayOf e = Inl err \<Longrightarrow> err = TypeError"
  by (auto simp: dayOf_def split: prod.splits jsvalue.splits)

lemma analyzeCategoricalSpending_Inl:
  assumes "analyzeCategoricalSpending ts = Inl err"
  shows "err = TypeError"
proof -
  obtain tot cnt where p: "foldl (\<lambda>(tot, cnt) t.
            (setProp tot (category t) (jsAdd (orZero (getProp tot (category t))) (Num (Fin (amount t)))),
             setProp cnt (category t) (jsAdd (orZero (getProp cnt (category t))) (Num (Fin 1)))))
         ([], []) ts = (tot, cnt)"
    by (cases "foldl (\<lambda>(tot, cnt) t.
            (setProp tot (category t) (jsAdd (orZero (getProp tot (category t))) (Num (Fin (amount t)))),
             setProp cnt (category t) (jsAdd (orZero (getProp cnt (category t))) (Num (Fin 1)))))
         ([], []) ts") blast
  from assms have "mapE (categoryOf cnt (foldl (\<lambda>sum (k, a). jsAdd sum a) (Num (Fin 0)) (entries tot))) (entries tot) = Inl err"
    by (simp add: analyzeCategoricalSpending_def p Let_def split: sum.splits)
  then obtain x where "categoryOf cnt (foldl (\<lambda>sum (k, a). jsAdd sum a) (Num (Fin 0)) (entries tot)) x = Inl err"
    by (blast dest: mapE_Inl)
  then show ?thesis by (rule categoryOf_Inl)
qed

lemma analyzeSpendingTimeline_Inl:
  assumes "analyzeSpendingTimeline dateValue ts = Inl err"
  shows "err = TypeError"
proof -
  from assms have "mapE dayOf (entries (foldl (\<lambda>obj t. setProp obj (date t) (jsAdd (orZero (getProp obj (date t))) (Num (Fin (amount t))))) [] ts)) = Inl err"
    by (simp add: analyzeSpendingTimeline_def Let_def split: sum.splits)
  then obtain x where "dayOf x = Inl err"
    by (blast dest: mapE_Inl)
  then show ?thesis by (rule dayOf_Inl)
qed

lemma analyzeStudent_found:
  assumes "find (\<lambda>s. studentId s = sid) (students d) = Some s"
  shows "analyzeStudent dateValue (Some d) sid = Inl TypeError \<or>
         (\<exists>cs r. analyzeCategoricalSpending (transactions s) = Inr cs \<and>
            analyzeSpendingTimeline dateValue (transactions s) = Inr r \<and>
            analyzeStudent dateValue (Some d) sid =
              Inr \<lparr>info = \<lparr>infoId = studentId s, infoName = name s,
                             infoSemester = semester s, infoBudget = monthlyBudget s\<rparr>,
                    spending = calculateSpendingMetrics (transactions s),
                    budget = analyzeBudget (transactions s) (monthlyBudget s),
                    categories = cs,
                    timeline = r\<rparr>)"
proof (cases "analyzeCategoricalSpending (transactions s)")
  case (Inl e)
  then have "e = TypeError" by (rule analyzeCategoricalSpending_Inl)
  then show ?thesis using assms Inl by (simp add: analyzeStudent_def)
next
  case cs: (Inr cs)
  show ?thesis
  proof (cases "analyzeSpendingTimeline dateValue (transactions s)")
    case (Inl e)
    then have "e = TypeError" by (rule analyzeSpendingTimeline_Inl)
    then show ?thesis using assms cs Inl by (simp add: analyzeStudent_def)
  next
    case (Inr r)
    then show ?thesis using assms cs by (simp add: analyzeStudent_def)
  qed
qed

lemma analyzeCategoricalSpending_Nil: "analyzeCategoricalSpending [] = Inr []"
  by (simp add: analyzeCategoricalSpending_def entries_def arraySort_def)

lemma analyzeSpendingTimeline_Nil:
  "analyzeSpendingTimeline dateValue [] =
     Inr \<lparr>dailySpending = [],
          highestSpendingDay = \<lparr>dayDate = None, dayAmount = Fin 0\<rparr>,
          lowestSpendingDay = \<lparr>dayDate = None, dayAmount = Fin 0\<rparr>\<rparr>"
  by (simp add: analyzeSpendingTimeline_def entries_def arraySort_def firstOrDefault_def)

section \<open>The validator\<close>

lemma forEachFrom_all_ok:
  assumes "\<forall>x\<in>set xs. \<forall>k. f x k = Inr ()"
  shows "forEachFrom i f xs = Inr ()"
  using assms by (induction xs arbitrary: i) simp_all

lemma forEachFrom_first_error:
  assumes "\<forall>y\<in>set pre. \<forall>k. f y k = Inr ()" and "f x (i + length pre) = Inl e"
  shows "forEachFrom i f (pre @ x # post) = Inl e"
  using assms by (induction pre arbitrary: i) simp_all

lemma forEachFrom_some_error:
  assumes "x \<in> set xs" and "\<forall>k. \<exists>e. f x k = Inl e"
  shows "\<exists>e. forEachFrom i f xs = Inl e"
  using assms
proof (induction xs arbitrary: i)
  case Nil
  then show ?case by simp
next
  case (Cons y ys)
  show ?case
  proof (cases "f y i")
    case (Inl e)
    then show ?thesis by simp
  next
    case (Inr u)
    have "x \<noteq> y"
    proof
      assume "x = y"
      with Cons.prems(2) obtain e where "f y i = Inl e" by blast
      with Inr show False by simp
    qed
    with Cons.prems have "x \<in> set ys" by auto
    with Cons.IH Cons.prems(2) have "\<exists>e. forEachFrom (Suc i) f ys = Inl e" by blast
    with Inr show ?thesis by simp
  qed
qed

lemma truthy_nonEmptyString: "nonEmptyString v \<Longrightarrow> truthy v"
  by (cases v) (simp_all add: nonEmptyString_def truthy_def)

lemma truthy_nonZeroNumber: "nonZeroNumber v \<Longrightarrow> truthy v"
  by (cases v) (simp_all add: nonZeroNumber_def truthy_def)

lemma truthy_isArray: "isArray v \<Longrightarrow> truthy v"
  by (cases v) (simp_all add: isArray_def truthy_def)

lemma not_nullish_isObject: "isObject v \<Longrightarrow> \<not> nullish v"
  by (cases v) (simp_all add: isObject_def nullish_def)

lemma checkTransaction_complete:
  assumes "completeTransaction t"
  shows "checkTransaction index t k = Inr ()"
  using assms
  by (simp add: completeTransaction_def checkTransaction_def truthy_nonEmptyString not_nullish_isObject)

lemma checkTransaction_missing_amount:
  assumes "getField t ''amount'' = JUndefined"
  shows "\<exists>e. checkTransaction index t k = Inl e"
  using assms by (simp add: checkTransaction_def)

lemma checkTransaction_missing_amount_object:
  assumes "isObject t" and "getField t ''amount'' = JUndefined"
  shows "checkTransaction index t k =
           Inl (Error (''Student '' @ showNat (index + 1) @ '', Transaction '' @
                       showNat (k + 1) @ '': Missing required fields''))"
  using assms by (simp add: checkTransaction_def not_nullish_isObject)

lemma checkStudent_header:
  assumes "completeHeader s"
  shows "checkStudent s k = forEach (checkTransaction k) (elements (getField s ''transactions''))"
  using assms
  by (simp add: completeHeader_def checkStudent_def truthy_nonEmptyString truthy_nonZeroNumber
      truthy_isArray not_nullish_isObject)

lemma checkStudent_complete:
  assumes "completeStudent s"
  shows "checkStudent s k = Inr ()"
proof -
  from assms have h: "completeHeader s"
    and t: "\<forall>t\<in>set (elements (getField s ''transactions'')). completeTransaction t"
    by (simp_all add: completeStudent_def list_all_iff)
  from t have "forEachFrom 0 (checkTransaction k) (elements (getField s ''transactions'')) = Inr ()"
    by (intro forEachFrom_all_ok) (simp add: checkTransaction_complete)
  then show ?thesis by (simp add: checkStudent_header [OF h] forEach_def)
qed

lemma checkStudent_missing_amount:
  assumes "getField s ''transactions'' = JArray trs" and "t \<in> set trs"
    and "getField t ''amount'' = JUndefined"
  shows "\<exists>e. checkStudent s k = Inl e"
proof -
  have "\<exists>e. forEachFrom 0 (checkTransaction k) trs = Inl e"
    using assms(2) checkTransaction_missing_amount [OF assms(3)]
    by (intro forEachFrom_some_error [of t]) simp_all
  then show ?thesis
    by (auto simp: checkStudent_def forEach_def assms(1) elements_def)
qed

lemma validateData_students:
  assumes "getField data ''students'' = JArray ss"
  shows "validateData data = forEachFrom 0 checkStudent ss"
proof -
  from assms have "isObject data"
    by (cases data) (simp_all add: getField_def isObject_def)
  then have "truthy data" by (cases data) (simp_all add: isObject_def truthy_def)
  then show ?thesis
    by (simp add: validateData_def assms truthy_def isArray_def elements_def forEach_def)
qed

text \<open>
  What the validator accepts and rejects. It accepts every dataset in which each student
  has a non-empty id, a non-empty name, a budget that is a number other than zero, and an
  array of transactions that each have a non-empty date, a non-empty category and an
  amount that is defined (zero included). It rejects every dataset in which a
  transaction of a student lacks its amount. When that transaction is the first defect
  the validator meets, the error names the student and the transaction by their
  positions, counted from 1.
\<close>

lemma validateData_accepts_and_rejects:
  "(getField data ''students'' = JArray ss \<and> list_all completeStudent ss \<longrightarrow>
      validateData data = Inr ()) \<and>
   (getField data ''students'' = JArray ss \<and> s \<in> set ss \<and>
    getField s ''transactions'' = JArray trs \<and> t \<in> set trs \<and>
    getField t ''amount'' = JUndefined \<longrightarrow>
      (\<exists>e. validateData data = Inl e)) \<and>
   (getField data ''students'' = JArray (spre @ s # spost) \<and> list_all completeStudent spre \<and>
    completeHeader s \<and> getField s ''transactions'' = JArray (tpre @ t # tpost) \<and>
    list_all completeTransaction tpre \<and> isObject t \<and> getField t ''amount'' = JUndefined \<longrightarrow>
      validateData data =
        Inl (Error (''Student '' @ showNat (length spre + 1) @ '', Transaction '' @
                    showNat (length tpre + 1) @ '': Missing required fields'')))"
proof (intro conjI impI)
  assume a: "getField data ''students'' = JArray ss \<and> list_all completeStudent ss"
  then have "forEachFrom 0 checkStudent ss = Inr ()"
    by (intro forEachFrom_all_ok) (simp add: list_all_iff checkStudent_complete)
  with a show "validateData data = Inr ()"
    by (simp add: validateData_students)
next
  assume a: "getField data ''students'' = JArray ss \<and> s \<in> set ss \<and>
    getField s ''transactions'' = JArray trs \<and> t \<in> set trs \<and>
    getField t ''amount'' = JUndefined"
  then have "\<forall>k. \<exists>e. checkStudent s k = Inl e"
    by (blast intro: checkStudent_missing_amount)
  with a have "\<exists>e. forEachFrom 0 checkStudent ss = Inl e"
    by (intro forEachFrom_some_error [of s]) simp_all
  with a show "\<exists>e. validateData data = Inl e"
    by (simp add: validateData_students)
next
  assume a: "getField data ''students'' = JArray (spre @ s # spost) \<and> list_all completeStudent spre \<and>
    completeHeader s \<and> getField s ''transactions'' = JArray (tpre @ t # tpost) \<and>
    list_all completeTransaction tpre \<and> isObject t \<and> getField t ''amount'' = JUndefined"
  let ?e = "Error (''Student '' @ showNat (length spre + 1) @ '', Transaction '' @
                    showNat (length tpre + 1) @ '': Missing required fields'')"
  have "forEachFrom 0 (checkTransaction (length spre)) (tpre @ t # tpost) = Inl ?e"
    using a by (intro forEachFrom_first_error)
      (simp_all add: list_all_iff checkTransaction_complete checkTransaction_missing_amount_object)
  then have "checkStudent s (0 + length spre) = Inl ?e"
    using a by (simp add: checkStudent_header forEach_def elements_def)
  then have "forEachFrom 0 checkStudent (spre @ s # spost) = Inl ?e"
    using a by (intro forEachFrom_first_error) (simp_all add: list_all_iff checkStudent_complete)
  with a show "validateData data = Inl ?e"
    by (simp add: validateData_students)
qed

lemmas binary64_eval =
  rnd_def quantum_def ilog2.simps pow2_def roundHalfEven_def Let_def fadd_def fsub_def fneg_def
  fmul_def fdiv_def toFixed_def roundDecimal_def double_def floatSum_def greater_def lessEq_def
  less_def falsy_def sign_def infinity_def

section \<open>The claims\<close>

text \<open>
  C1, as the code has it. \<open>total\<close> is the sum of the amounts as binary64 arithmetic
  accumulates it (from 0, left to right, every partial sum rounded to the nearest
  binary64 number), rounded to two decimals once, at the end: when that sum is the finite
  number \<open>x\<close>, \<open>total\<close> is the binary64 number nearest to a whole number of hundredths
  that is at most half a hundredth from \<open>x\<close>, for \<open>x\<close> not negative \<open>x\<close> rounded half up;
  when the sum has overflowed, \<open>total\<close> is that infinity. No amount and no partial sum
  is rounded to two decimals.
\<close>

theorem total_rounds_binary64_sum:
  "let s = floatSum (map amount ts); r = total (calculateSpendingMetrics ts)
   in r = toFixed 2 s \<and>
      (\<forall>x. s = Fin x \<longrightarrow>
         (\<exists>n::int. r = rnd (of_int n / 100) \<and> \<bar>of_int n / 100 - x\<bar> \<le> 1 / 200 \<and>
            (0 \<le> x \<longrightarrow> n = \<lfloor>x * 100 + 1 / 2\<rfloor>))) \<and>
      (s = PInf \<longrightarrow> r = PInf) \<and> (s = NInf \<longrightarrow> r = NInf)"
proof -
  define s where "s = floatSum (map amount ts)"
  have eq: "total (calculateSpendingMetrics ts) = toFixed 2 s"
    by (cases ts) (simp_all add: calculateSpendingMetrics_def Let_def foldl_amount_floatSum
        floatSum_def s_def toFixed_def roundDecimal_def)
  have fin: "\<exists>n::int. toFixed 2 s = rnd (of_int n / 100) \<and> \<bar>of_int n / 100 - x\<bar> \<le> 1 / 200 \<and>
            (0 \<le> x \<longrightarrow> n = \<lfloor>x * 100 + 1 / 2\<rfloor>)" if "s = Fin x" for x
  proof -
    have t: "toFixed 2 s = rnd (roundDecimal 2 x)"
      using that by (simp add: toFixed_def)
    have e: "\<bar>roundDecimal 2 x - x\<bar> \<le> 1 / 200"
      using roundDecimal_error [of 2 x] by simp
    show ?thesis
    proof (cases "0 \<le> x")
      case True
      then have r: "roundDecimal 2 x = of_int \<lfloor>x * 100 + 1 / 2\<rfloor> / 100"
        by (simp add: roundDecimal_def)
      have "toFixed 2 s = rnd (of_int \<lfloor>x * 100 + 1 / 2\<rfloor> / 100)"
        using t by (simp only: r)
      moreover have "\<bar>of_int \<lfloor>x * 100 + 1 / 2\<rfloor> / 100 - x\<bar> \<le> 1 / 200"
        using e by (simp only: r)
      ultimately show ?thesis by blast
    next
      case False
      then have r: "roundDecimal 2 x = of_int (- \<lfloor>(- x) * 100 + 1 / 2\<rfloor>) / 100"
        by (simp add: roundDecimal_def)
      have "toFixed 2 s = rnd (of_int (- \<lfloor>(- x) * 100 + 1 / 2\<rfloor>) / 100)"
        using t by (simp only: r)
      moreover have "\<bar>of_int (- \<lfloor>(- x) * 100 + 1 / 2\<rfloor>) / 100 - x\<bar> \<le> 1 / 200"
        using e by (simp only: r)
      ultimately show ?thesis using False by blast
    qed
  qed
  have inf: "s = PInf \<longrightarrow> toFixed 2 s = PInf" "s = NInf \<longrightarrow> toFixed 2 s = NInf"
    by (simp_all add: toFixed_def)
  show ?thesis
    unfolding Let_def eq s_def [symmetric] using fin inf by blast
qed

text \<open>
  An instance of C1: three amounts of 0.004 sum to 0.012, and the total is 0.01; each
  amount rounded on its own would give 0.
\<close>

theorem total_rounds_binary64_sum_witness:
  "total (calculateSpendingMetrics
     [\<lparr>date = ''2024-01-05'', category = ''Food'', amount = double (4 / 1000)\<rparr>,
      \<lparr>date = ''2024-01-06'', category = ''Food'', amount = double (4 / 1000)\<rparr>,
      \<lparr>date = ''2024-01-07'', category = ''Books'', amount = double (4 / 1000)\<rparr>]) =
     Fin (double (1 / 100)) \<and>
   toFixed 2 (Fin (double (4 / 1000))) = Fin 0"
proof -
  have ev:
    "double (4 / 1000) = 1152921504606847 / 288230376151711744"
    "double (1 / 100) = 5764607523034235 / 576460752303423488"
    "fadd (Fin 0) (Fin (1152921504606847 / 288230376151711744)) = Fin (1152921504606847 / 288230376151711744)"
    "fadd (Fin (1152921504606847 / 288230376151711744)) (Fin (1152921504606847 / 288230376151711744)) = Fin (1152921504606847 / 144115188075855872)"
    "fadd (Fin (1152921504606847 / 144115188075855872)) (Fin (1152921504606847 / 288230376151711744)) = Fin (3458764513820541 / 288230376151711744)"
    "toFixed 2 (Fin (3458764513820541 / 288230376151711744)) = Fin (5764607523034235 / 576460752303423488)"
    "toFixed 2 (Fin (1152921504606847 / 288230376151711744)) = Fin 0"
    by (simp_all add: binary64_eval)
  show ?thesis
    using total_rounds_binary64_sum
      [of "[\<lparr>date = ''2024-01-05'', category = ''Food'', amount = double (4 / 1000)\<rparr>,
            \<lparr>date = ''2024-01-06'', category = ''Food'', amount = double (4 / 1000)\<rparr>,
            \<lparr>date = ''2024-01-07'', category = ''Books'', amount = double (4 / 1000)\<rparr>]",
       unfolded Let_def, THEN conjunct1]
    unfolding ev by (simp add: floatSum_def ev)
qed

text \<open>
  C1 as stated fails: the amounts 0.322 and 0.033 have the total 0.35, while their exact
  sum, 0.355 in decimals and a little more as the sum of the two binary64 numbers, rounds
  to 0.36. The partial sum that binary64 addition returns lies below 0.355.
\<close>

theorem total_of_exact_sum_counterexample:
  "total (calculateSpendingMetrics
     [\<lparr>date = ''2024-01-05'', category = ''Food'', amount = double (322 / 1000)\<rparr>,
      \<lparr>date = ''2024-01-06'', category = ''Food'', amount = double (33 / 1000)\<rparr>]) =
     Fin (double (35 / 100)) \<and>
   toFixed 2 (Fin (double (322 / 1000) + double (33 / 1000))) = Fin (double (36 / 100)) \<and>
   roundDecimal 2 (322 / 1000 + 33 / 1000) = 36 / 100 \<and>
   double (35 / 100) \<noteq> double (36 / 100)"
proof -
  have ev:
    "double (322 / 1000) = 5800636320053199 / 18014398509481984"
    "double (33 / 1000) = 1188950301625811 / 36028797018963968"
    "double (35 / 100) = 3152519739159347 / 9007199254740992"
    "double (36 / 100) = 3242591731706757 / 9007199254740992"
    "fadd (Fin 0) (Fin (5800636320053199 / 18014398509481984)) = Fin (5800636320053199 / 18014398509481984)"
    "fadd (Fin (5800636320053199 / 18014398509481984)) (Fin (1188950301625811 / 36028797018963968)) = Fin (799388933858263 / 2251799813685248)"
    "toFixed 2 (Fin (799388933858263 / 2251799813685248)) = Fin (3152519739159347 / 9007199254740992)"
    "toFixed 2 (Fin (12790222941732209 / 36028797018963968)) = Fin (3242591731706757 / 9007199254740992)"
    "5800636320053199 / 18014398509481984 + 1188950301625811 / 36028797018963968 = (12790222941732209 / 36028797018963968 :: rat)"
    by (simp_all add: binary64_eval)
  have r: "roundDecimal 2 (322 / 1000 + 33 / 1000) = 36 / 100"
    by (simp add: roundDecimal_def)
  show ?thesis
    unfolding ev r by (simp add: calculateSpendingMetrics_def Let_def ev)
qed

text \<open>
  C2. The zero defaults. Without transactions \<open>average\<close>, \<open>dailyAverage\<close> and
  \<open>utilization\<close> are the number 0 (not \<open>NaN\<close>, not an infinity) and the highest and the
  lowest spending day are the default \<open>{date: null, amount: 0}\<close>; with nothing allocated
  \<open>utilization\<close> is 0 for every transaction collection. So the analysis of a student
  without transactions returns, with these values, and throws nothing.
\<close>

theorem zero_defaults:
  "average (calculateSpendingMetrics []) = Fin 0 \<and>
   dailyAverage (calculateSpendingMetrics []) = Fin 0 \<and>
   utilization (analyzeBudget [] b) = Fin 0 \<and>
   analyzeSpendingTimeline dateValue [] =
     Inr \<lparr>dailySpending = [],
          highestSpendingDay = \<lparr>dayDate = None, dayAmount = Fin 0\<rparr>,
          lowestSpendingDay = \<lparr>dayDate = None, dayAmount = Fin 0\<rparr>\<rparr> \<and>
   utilization (analyzeBudget ts 0) = Fin 0 \<and>
   (find (\<lambda>s. studentId s = sid) (students d) = Some s \<and> transactions s = [] \<longrightarrow>
      (\<exists>a. analyzeStudent dateValue (Some d) sid = Inr a \<and>
         average (spending a) = Fin 0 \<and> dailyAverage (spending a) = Fin 0 \<and>
         utilization (budget a) = Fin 0 \<and>
         highestSpendingDay (timeline a) = \<lparr>dayDate = None, dayAmount = Fin 0\<rparr> \<and>
         lowestSpendingDay (timeline a) = \<lparr>dayDate = None, dayAmount = Fin 0\<rparr>))"
proof -
  have 1: "average (calculateSpendingMetrics []) = Fin 0" "dailyAverage (calculateSpendingMetrics []) = Fin 0"
    by (simp_all add: calculateSpendingMetrics_def)
  have z: "toFixed f (Fin 0) = Fin 0" for f
    by (simp add: toFixed_def roundDecimal_def)
  have "0 < c \<Longrightarrow> fdiv (Fin 0) (Fin c) = Fin 0" for c
    by (simp add: fdiv_def)
  moreover have "fmul (Fin 0) (Fin 100) = Fin 0"
    by (simp add: fmul_def)
  ultimately have 2: "utilization (analyzeBudget [] c) = Fin 0" for c
    by (simp add: analyzeBudget_def Let_def z)
  have 3: "utilization (analyzeBudget ts 0) = Fin 0"
    by (simp add: analyzeBudget_def Let_def z)
  have 4: "\<exists>a. analyzeStudent dateValue (Some d) sid = Inr a \<and>
         average (spending a) = Fin 0 \<and> dailyAverage (spending a) = Fin 0 \<and>
         utilization (budget a) = Fin 0 \<and>
         highestSpendingDay (timeline a) = \<lparr>dayDate = None, dayAmount = Fin 0\<rparr> \<and>
         lowestSpendingDay (timeline a) = \<lparr>dayDate = None, dayAmount = Fin 0\<rparr>"
    if "find (\<lambda>s. studentId s = sid) (students d) = Some s" and "transactions s = []"
    using that
    by (simp add: analyzeStudent_def analyzeCategoricalSpending_Nil analyzeSpendingTimeline_Nil 1 2)
  show ?thesis
    using 1 2 3 4 by (simp add: analyzeSpendingTimeline_Nil)
qed

text \<open>An instance of C2: a student with no transactions and no budget.\<close>

theorem zero_defaults_witness:
  "\<exists>a. analyzeStudent (\<lambda>d. 0)
          (Some \<lparr>students = [\<lparr>studentId = ''STU001'', name = ''Ada'', semester = ''Fall 2024'',
                               monthlyBudget = 0, transactions = []\<rparr>]\<rparr>) ''STU001'' = Inr a \<and>
       average (spending a) = Fin 0 \<and> dailyAverage (spending a) = Fin 0 \<and>
       utilization (budget a) = Fin 0 \<and>
       highestSpendingDay (timeline a) = \<lparr>dayDate = None, dayAmount = Fin 0\<rparr> \<and>
       lowestSpendingDay (timeline a) = \<lparr>dayDate = None, dayAmount = Fin 0\<rparr>"
  using zero_defaults [where sid = "''STU001''"
      and s = "\<lparr>studentId = ''STU001'', name = ''Ada'', semester = ''Fall 2024'',
                 monthlyBudget = 0, transactions = []\<rparr>"
      and d = "\<lparr>students = [\<lparr>studentId = ''STU001'', name = ''Ada'', semester = ''Fall 2024'',
                               monthlyBudget = 0, transactions = []\<rparr>]\<rparr>"
      and dateValue = "\<lambda>d. 0"]
  by simp

text \<open>
  C3, as the code has it. The status is the five-band classification of the utilization
  before it is rounded to one decimal: \<open>u\<close> is the binary64 sum of the amounts, divided by
  the allocated budget and multiplied by 100 in binary64 arithmetic, and \<open>u = 0\<close> when
  nothing is allocated. At most 50 is Conservative, above 50 up to 75 Moderate, above 75
  up to 90 High, above 90 up to 100 Near Limit, above 100 Over Budget; \<open>u\<close> is never
  \<open>NaN\<close>, so one band applies. \<open>isOverBudget\<close> holds exactly when the binary64 sum of the
  amounts, before it is rounded to two decimals, is greater than the allocated budget. The
  reported \<open>utilization\<close> and \<open>spent\<close> are the roundings of the two.
\<close>

theorem budget_status_of_unrounded_utilization:
  "let s = floatSum (map amount ts);
       u = (if b > 0 then fmul (fdiv s (Fin b)) (Fin 100) else Fin 0);
       r = analyzeBudget ts b
   in allocated r = b \<and> spent r = toFixed 2 s \<and> utilization r = toFixed 1 u \<and> u \<noteq> NaN \<and>
      (lessEq u (Fin 50) \<longrightarrow> status r = ''Conservative'') \<and>
      (greater u (Fin 50) \<and> lessEq u (Fin 75) \<longrightarrow> status r = ''Moderate'') \<and>
      (greater u (Fin 75) \<and> lessEq u (Fin 90) \<longrightarrow> status r = ''High'') \<and>
      (greater u (Fin 90) \<and> lessEq u (Fin 100) \<longrightarrow> status r = ''Near Limit'') \<and>
      (greater u (Fin 100) \<longrightarrow> status r = ''Over Budget'') \<and>
      (isOverBudget r \<longleftrightarrow> greater s (Fin b))"
proof -
  define s where "s = floatSum (map amount ts)"
  define u where "u = (if b > 0 then fmul (fdiv s (Fin b)) (Fin 100) else Fin 0)"
  have s: "foldl (\<lambda>sum t. fadd sum (Fin (amount t))) (Fin 0) ts = s"
    by (simp add: s_def floatSum_def foldl_amount_floatSum)
  have "s \<noteq> NaN" by (simp add: s_def)
  then have u: "u \<noteq> NaN"
    by (simp add: u_def fdiv_not_NaN fmul_not_NaN)
  have r: "analyzeBudget ts b =
      \<lparr>allocated = b, spent = toFixed 2 s, remaining = toFixed 2 (fsub (Fin b) s),
       utilization = toFixed 1 u, status = getBudgetStatus u, isOverBudget = greater s (Fin b)\<rparr>"
    by (simp add: analyzeBudget_def Let_def s u_def)
  show ?thesis
    unfolding Let_def s_def [symmetric] u_def [symmetric] r
    using getBudgetStatus_bands [OF u] u by simp
qed

text \<open>
  The boundary table of C3: with 100 allocated, 50 spent is Conservative, 75 Moderate,
  90 High, 100 Near Limit and not over budget, 101 Over Budget and over budget.
\<close>

theorem budget_status_of_unrounded_utilization_witness:
  "status (analyzeBudget [\<lparr>date = ''2024-01-05'', category = ''Food'', amount = 101\<rparr>] 100) = ''Over Budget'' \<and>
   isOverBudget (analyzeBudget [\<lparr>date = ''2024-01-05'', category = ''Food'', amount = 101\<rparr>] 100) \<and>
   status (analyzeBudget [\<lparr>date = ''2024-01-05'', category = ''Food'', amount = 100\<rparr>] 100) = ''Near Limit'' \<and>
   \<not> isOverBudget (analyzeBudget [\<lparr>date = ''2024-01-05'', category = ''Food'', amount = 100\<rparr>] 100) \<and>
   status (analyzeBudget [\<lparr>date = ''2024-01-05'', category = ''Food'', amount = 90\<rparr>] 100) = ''High'' \<and>
   status (analyzeBudget [\<lparr>date = ''2024-01-05'', category = ''Food'', amount = 75\<rparr>] 100) = ''Moderate'' \<and>
   status (analyzeBudget [\<lparr>date = ''2024-01-05'', category = ''Food'', amount = 50\<rparr>] 100) = ''Conservative''"
proof -
  have ev:
    "fadd (Fin 0) (Fin 101) = Fin 101"
    "fdiv (Fin 101) (Fin 100) = Fin (4548635623644201 / 4503599627370496)"
    "fmul (Fin (4548635623644201 / 4503599627370496)) (Fin 100) = Fin 101"
    "fadd (Fin 0) (Fin 100) = Fin 100"
    "fdiv (Fin 100) (Fin 100) = Fin 1"
    "fmul (Fin 1) (Fin 100) = Fin 100"
    "fadd (Fin 0) (Fin 90) = Fin 90"
    "fdiv (Fin 90) (Fin 100) = Fin (8106479329266893 / 9007199254740992)"
    "fmul (Fin (8106479329266893 / 9007199254740992)) (Fin 100) = Fin 90"
    "fadd (Fin 0) (Fin 75) = Fin 75"
    "fdiv (Fin 75) (Fin 100) = Fin (3 / 4)"
    "fmul (Fin (3 / 4)) (Fin 100) = Fin 75"
    "fadd (Fin 0) (Fin 50) = Fin 50"
    "fdiv (Fin 50) (Fin 100) = Fin (1 / 2)"
    "fmul (Fin (1 / 2)) (Fin 100) = Fin 50"
    by (simp_all add: binary64_eval)
  show ?thesis
    using budget_status_of_unrounded_utilization [where b = 100 and ts = "[\<lparr>date = ''2024-01-05'', category = ''Food'', amount = 101\<rparr>]"]
      budget_status_of_unrounded_utilization [where b = 100 and ts = "[\<lparr>date = ''2024-01-05'', category = ''Food'', amount = 100\<rparr>]"]
      budget_status_of_unrounded_utilization [where b = 100 and ts = "[\<lparr>date = ''2024-01-05'', category = ''Food'', amount = 90\<rparr>]"]
      budget_status_of_unrounded_utilization [where b = 100 and ts = "[\<lparr>date = ''2024-01-05'', category = ''Food'', amount = 75\<rparr>]"]
      budget_status_of_unrounded_utilization [where b = 100 and ts = "[\<lparr>date = ''2024-01-05'', category = ''Food'', amount = 50\<rparr>]"]
    by (simp add: Let_def floatSum_def ev greater_def lessEq_def)
qed

text \<open>
  C3 as stated fails on the reported values. With 100 allocated and the amounts 22.61,
  24.59, 21.07 and 31.73 the analysis reports \<open>spent = 100\<close> and \<open>utilization = 100\<close>,
  and yet the status Over Budget and \<open>isOverBudget = true\<close>: the binary64 sum of the
  amounts is a little more than 100. With 1000 allocated and one transaction of 500.40 it
  reports \<open>utilization = 50\<close> and the status Moderate.
\<close>

theorem status_of_reported_utilization_counterexample:
  "analyzeBudget
     [\<lparr>date = ''2024-01-05'', category = ''Food'', amount = double (2261 / 100)\<rparr>,
      \<lparr>date = ''2024-01-06'', category = ''Books'', amount = double (2459 / 100)\<rparr>,
      \<lparr>date = ''2024-01-07'', category = ''Food'', amount = double (2107 / 100)\<rparr>,
      \<lparr>date = ''2024-01-08'', category = ''Fun'', amount = double (3173 / 100)\<rparr>] 100 =
     \<lparr>allocated = 100, spent = Fin 100, remaining = Fin 0, utilization = Fin 100,
      status = ''Over Budget'', isOverBudget = True\<rparr> \<and>
   analyzeBudget [\<lparr>date = ''2024-01-05'', category = ''Food'', amount = double (5004 / 10)\<rparr>] 1000 =
     \<lparr>allocated = 1000, spent = Fin (double (5004 / 10)), remaining = Fin (double (4996 / 10)),
      utilization = Fin 50, status = ''Moderate'', isOverBudget = False\<rparr>"
proof -
  have ev:
    "double (2261 / 100) = 1591037305856983 / 70368744177664"
    "double (2459 / 100) = 6921469677315031 / 281474976710656"
    "double (2107 / 100) = 2965338879646761 / 140737488355328"
    "double (3173 / 100) = 8931201011029115 / 281474976710656"
    "fadd (Fin 0) (Fin (1591037305856983 / 70368744177664)) = Fin (1591037305856983 / 70368744177664)"
    "fadd (Fin (1591037305856983 / 70368744177664)) (Fin (6921469677315031 / 281474976710656)) = Fin (3321404725185741 / 70368744177664)"
    "fadd (Fin (3321404725185741 / 70368744177664)) (Fin (2965338879646761 / 140737488355328)) = Fin (2402037082504561 / 35184372088832)"
    "fadd (Fin (2402037082504561 / 35184372088832)) (Fin (8931201011029115 / 281474976710656)) = Fin (7036874417766401 / 70368744177664)"
    "toFixed 2 (Fin (7036874417766401 / 70368744177664)) = Fin 100"
    "fsub (Fin 100) (Fin (7036874417766401 / 70368744177664)) = Fin (- (1 / 70368744177664))"
    "toFixed 2 (Fin (- (1 / 70368744177664))) = Fin 0"
    "fdiv (Fin (7036874417766401 / 70368744177664)) (Fin 100) = Fin (4503599627370497 / 4503599627370496)"
    "fmul (Fin (4503599627370497 / 4503599627370496)) (Fin 100) = Fin (3518437208883201 / 35184372088832)"
    "toFixed 1 (Fin (3518437208883201 / 35184372088832)) = Fin 100"
    "double (5004 / 10) = 4401564948312883 / 8796093022208"
    "double (4996 / 10) = 4394528073895117 / 8796093022208"
    "fadd (Fin 0) (Fin (4401564948312883 / 8796093022208)) = Fin (4401564948312883 / 8796093022208)"
    "toFixed 2 (Fin (4401564948312883 / 8796093022208)) = Fin (4401564948312883 / 8796093022208)"
    "fsub (Fin 1000) (Fin (4401564948312883 / 8796093022208)) = Fin (4394528073895117 / 8796093022208)"
    "toFixed 2 (Fin (4394528073895117 / 8796093022208)) = Fin (4394528073895117 / 8796093022208)"
    "fdiv (Fin (4401564948312883 / 8796093022208)) (Fin 1000) = Fin (563400313384049 / 1125899906842624)"
    "fmul (Fin (563400313384049 / 1125899906842624)) (Fin 100) = Fin (1760625979325153 / 35184372088832)"
    "toFixed 1 (Fin (1760625979325153 / 35184372088832)) = Fin 50"
    by (simp_all add: binary64_eval)
  show ?thesis
    unfolding ev by (simp add: analyzeBudget_def Let_def ev getBudgetStatus_def greater_def lessEq_def del: One_nat_def)
qed

text \<open>
  C4, as the code has it. When no category bears the name of a member of
  \<open>Object.prototype\<close>, the breakdown has one entry for each category, its amount the
  rounded sum of the category, and the entries are sorted by that amount, highest first.
  Entries of equal amount stand in the order in which the totals object lists its keys:
  the names that are array indices first, in ascending numeric order, then the other
  names as first seen. When no category name is an array index, that is first-seen order.
\<close>

theorem categories_sorted_ties_in_key_order:
  assumes "\<forall>t\<in>set ts. category t \<notin> set objectPrototypeNames"
  shows "\<exists>cs. analyzeCategoricalSpending ts = Inr cs \<and>
           set (map categoryName cs) = set (map category ts) \<and>
           distinct (map categoryName cs) \<and>
           (\<forall>c\<in>set cs. categoryAmount c = toFixed 2 (groupSum category amount ts (categoryName c))) \<and>
           sorted_wrt (\<lambda>a b. lessEq (categoryAmount b) (categoryAmount a)) cs \<and>
           (\<forall>v. map categoryName (filter (\<lambda>c. categoryAmount c = v) cs) =
                 filter (\<lambda>k. toFixed 2 (groupSum category amount ts k) = v)
                   (keyOrder (firstSeen (map category ts)))) \<and>
           ((\<forall>t\<in>set ts. \<not> isArrayIndex (category t)) \<longrightarrow>
              keyOrder (firstSeen (map category ts)) = firstSeen (map category ts))"
proof -
  let ?ks = "keyOrder (firstSeen (map category ts))"
  let ?rows = "map (categoryRow ts) ?ks"
  let ?cs = "sort_key (\<lambda>c. rankDesc (categoryAmount c)) ?rows"
  have res: "analyzeCategoricalSpending ts = Inr ?cs"
    by (rule analyzeCategoricalSpending_closed [OF assms])
  have names: "map categoryName ?rows = ?ks"
    by (simp add: comp_def)
  have set_cs: "set ?cs = categoryRow ts ` set (map category ts)"
    by simp
  have 1: "set (map categoryName ?cs) = set (map category ts)"
    by (simp add: image_image)
  have inj: "inj_on categoryName (set ?rows)"
    by (auto simp: inj_on_def)
  have "distinct ?rows"
    by (rule distinct_categoryRows) simp
  then have 2: "distinct (map categoryName ?cs)"
    using inj by (simp add: distinct_map)
  have 3: "\<forall>c\<in>set ?cs. categoryAmount c = toFixed 2 (groupSum category amount ts (categoryName c))"
    by auto
  have "sorted (map (\<lambda>c. rankDesc (categoryAmount c)) ?cs)"
    by (rule sorted_sort_key)
  then have "sorted_wrt (\<lambda>a b. rankDesc (categoryAmount a) \<le> rankDesc (categoryAmount b)) ?cs"
    by (simp add: sorted_map)
  then have 4: "sorted_wrt (\<lambda>a b. lessEq (categoryAmount b) (categoryAmount a)) ?cs"
  proof (rule sorted_wrt_mono_rel [rotated])
    fix a b
    assume "a \<in> set ?cs" "b \<in> set ?cs"
      and le: "rankDesc (categoryAmount a) \<le> rankDesc (categoryAmount b)"
    then have "categoryAmount a \<noteq> NaN" "categoryAmount b \<noteq> NaN"
      by auto
    then show "lessEq (categoryAmount b) (categoryAmount a)"
      using le by (simp add: lessEq_rank rankDesc_le)
  qed
  have 5: "map categoryName (filter (\<lambda>c. categoryAmount c = v) ?cs) =
           filter (\<lambda>k. toFixed 2 (groupSum category amount ts k) = v) ?ks" for v
  proof -
    have "filter (\<lambda>c. categoryAmount c = v) ?cs =
          filter (\<lambda>c. rankDesc (categoryAmount c) = rankDesc v) ?cs"
      by (rule filter_cong) (auto dest: rankDesc_inj)
    also have "\<dots> = filter (\<lambda>c. rankDesc (categoryAmount c) = rankDesc v) ?rows"
      by (rule sort_key_stable)
    also have "\<dots> = filter (\<lambda>c. categoryAmount c = v) ?rows"
      by (rule filter_cong) (auto dest: rankDesc_inj)
    finally show ?thesis
      by (simp add: filter_map comp_def)
  qed
  have 6: "(\<forall>t\<in>set ts. \<not> isArrayIndex (category t)) \<longrightarrow> ?ks = firstSeen (map category ts)"
  proof
    assume "\<forall>t\<in>set ts. \<not> isArrayIndex (category t)"
    then have "\<forall>k\<in>set (firstSeen (map category ts)). \<not> isArrayIndex k" by auto
    then show "?ks = firstSeen (map category ts)" by (rule keyOrder_no_index)
  qed
  show ?thesis
    using res 1 2 3 4 5 6 by blast
qed

text \<open>
  An instance of C4: Books and Fun both sum to 60, and Books, seen first, comes first.
\<close>

theorem categories_sorted_ties_in_key_order_witness:
  "\<exists>cs. analyzeCategoricalSpending
       [\<lparr>date = ''2024-01-05'', category = ''Food'', amount = 120\<rparr>,
        \<lparr>date = ''2024-01-06'', category = ''Books'', amount = 60\<rparr>,
        \<lparr>date = ''2024-01-06'', category = ''Food'', amount = 80\<rparr>,
        \<lparr>date = ''2024-01-07'', category = ''Fun'', amount = 60\<rparr>] = Inr cs \<and>
      map categoryName (filter (\<lambda>c. categoryAmount c = Fin 60) cs) = [''Books'', ''Fun''] \<and>
      map categoryName (filter (\<lambda>c. categoryAmount c = Fin 200) cs) = [''Food'']"
proof -
  let ?ts = "[\<lparr>date = ''2024-01-05'', category = ''Food'', amount = 120\<rparr>,
        \<lparr>date = ''2024-01-06'', category = ''Books'', amount = 60\<rparr>,
        \<lparr>date = ''2024-01-06'', category = ''Food'', amount = 80\<rparr>,
        \<lparr>date = ''2024-01-07'', category = ''Fun'', amount = 60\<rparr>]"
  have ev:
    "fadd (Fin 0) (Fin 120) = Fin 120"
    "fadd (Fin 120) (Fin 80) = Fin 200"
    "fadd (Fin 0) (Fin 60) = Fin 60"
    "toFixed 2 (Fin 200) = Fin 200"
    "toFixed 2 (Fin 60) = Fin 60"
    by (simp_all add: binary64_eval)
  have h: "\<forall>t\<in>set ?ts. category t \<notin> set objectPrototypeNames"
    by (simp add: objectPrototypeNames_def)
  have i: "\<forall>t\<in>set ?ts. \<not> isArrayIndex (category t)"
    by (simp add: isArrayIndex_def isDigit_def)
  have f: "firstSeen (map category ?ts) = [''Food'', ''Books'', ''Fun'']"
    by (simp add: firstSeen_def)
  have g: "toFixed 2 (groupSum category amount ?ts ''Food'') = Fin 200"
      "toFixed 2 (groupSum category amount ?ts ''Books'') = Fin 60"
      "toFixed 2 (groupSum category amount ?ts ''Fun'') = Fin 60"
    by (simp_all add: groupSum_def floatSum_def ev)
  from categories_sorted_ties_in_key_order [OF h] obtain cs where
    r: "analyzeCategoricalSpending ?ts = Inr cs"
    and t: "\<forall>v. map categoryName (filter (\<lambda>c. categoryAmount c = v) cs) =
                 filter (\<lambda>k. toFixed 2 (groupSum category amount ?ts k) = v)
                   (keyOrder (firstSeen (map category ?ts)))"
    and k: "(\<forall>t\<in>set ?ts. \<not> isArrayIndex (category t)) \<longrightarrow>
              keyOrder (firstSeen (map category ?ts)) = firstSeen (map category ?ts)"
    by blast
  from k i have k': "keyOrder (firstSeen (map category ?ts)) = [''Food'', ''Books'', ''Fun'']"
    unfolding f by blast
  have a: "map categoryName (filter (\<lambda>c. categoryAmount c = Fin 60) cs) = [''Books'', ''Fun'']"
    using t [rule_format, of "Fin 60"] unfolding k' by (simp add: g)
  have b: "map categoryName (filter (\<lambda>c. categoryAmount c = Fin 200) cs) = [''Food'']"
    using t [rule_format, of "Fin 200"] unfolding k' by (simp add: g)
  show ?thesis
    by (rule exI [of _ cs]) (simp only: r a b simp_thms)
qed

text \<open>
  C4 as stated fails: the categories \<open>2\<close> and \<open>1\<close>, seen in this order and with equal
  sums, come out as \<open>1\<close>, \<open>2\<close>.
\<close>

theorem categories_first_seen_counterexample:
  "analyzeCategoricalSpending
     [\<lparr>date = ''2024-01-05'', category = ''2'', amount = 5\<rparr>,
      \<lparr>date = ''2024-01-06'', category = ''1'', amount = 5\<rparr>] =
   Inr [\<lparr>categoryName = ''1'', categoryAmount = Fin 5, percentage = Fin 50,
         categoryCount = Some (Num (Fin 1)), averagePerTransaction = Fin 5\<rparr>,
        \<lparr>categoryName = ''2'', categoryAmount = Fin 5, percentage = Fin 50,
         categoryCount = Some (Num (Fin 1)), averagePerTransaction = Fin 5\<rparr>]"
proof -
  have ev:
    "fadd (Fin 0) (Fin 5) = Fin 5"
    "fadd (Fin 0) (Fin 1) = Fin 1"
    "fadd (Fin 5) (Fin 5) = Fin 10"
    "toFixed 2 (Fin 5) = Fin 5"
    "fdiv (Fin 5) (Fin 10) = Fin (1 / 2)"
    "fmul (Fin (1 / 2)) (Fin 100) = Fin 50"
    "toFixed 1 (Fin 50) = Fin 50"
    "fdiv (Fin 5) (Fin 1) = Fin 5"
    "fsub (Fin 5) (Fin 5) = Fin 0"
    by (simp_all add: binary64_eval)
  show ?thesis
    by (simp add: analyzeCategoricalSpending_def setProp_def getProp_def orZero_def jsAdd_def
      objectPrototypeNames_def entries_def isArrayIndex_def isDigit_def digitsValue_def
      categoryOf_def averageOver_def arraySort_def ev falsy_def greater_def del: One_nat_def)
qed

text \<open>
  C5, as the code has it. When no date bears the name of a member of \<open>Object.prototype\<close>
  (no calendar date does), the timeline has one day for each date, its amount the
  binary64 sum of the amounts of that date rounded to two decimals, and the days are
  sorted ascending by the time value of the date. With transactions,
  \<open>highestSpendingDay\<close> is the first day in this order with the greatest rounded amount:
  the days before it have less, the days after it no more; and \<open>lowestSpendingDay\<close> is
  the first day with the least rounded amount. Without transactions both are the default
  day.
\<close>

theorem timeline_reduction:
  assumes "\<forall>t\<in>set ts. date t \<notin> set objectPrototypeNames"
  shows "\<exists>r. analyzeSpendingTimeline dateValue ts = Inr r \<and>
           set (map dayDate (dailySpending r)) = Some ` set (map date ts) \<and>
           distinct (map dayDate (dailySpending r)) \<and>
           (\<forall>d\<in>set (dailySpending r). \<forall>k. dayDate d = Some k \<longrightarrow>
               dayAmount d = toFixed 2 (groupSum date amount ts k)) \<and>
           sorted (map (timeOf dateValue) (dailySpending r)) \<and>
           (ts \<noteq> [] \<longrightarrow>
             (\<exists>pre post. dailySpending r = pre @ highestSpendingDay r # post \<and>
                (\<forall>d\<in>set pre. less (dayAmount d) (dayAmount (highestSpendingDay r))) \<and>
                (\<forall>d\<in>set post. lessEq (dayAmount d) (dayAmount (highestSpendingDay r)))) \<and>
             (\<exists>pre post. dailySpending r = pre @ lowestSpendingDay r # post \<and>
                (\<forall>d\<in>set pre. less (dayAmount (lowestSpendingDay r)) (dayAmount d)) \<and>
                (\<forall>d\<in>set post. lessEq (dayAmount (lowestSpendingDay r)) (dayAmount d)))) \<and>
           (ts = [] \<longrightarrow>
             highestSpendingDay r = \<lparr>dayDate = None, dayAmount = Fin 0\<rparr> \<and>
             lowestSpendingDay r = \<lparr>dayDate = None, dayAmount = Fin 0\<rparr>)"
proof -
  let ?ks = "keyOrder (firstSeen (map date ts))"
  let ?rows = "map (dayRow ts) ?ks"
  let ?sd = "sort_key (timeOf dateValue) ?rows"
  let ?hi = "foldl (\<lambda>max d. if greater (dayAmount d) (dayAmount max) then d else max) (firstOrDefault ?sd) ?sd"
  let ?lo = "foldl (\<lambda>min d. if less (dayAmount d) (dayAmount min) then d else min) (firstOrDefault ?sd) ?sd"
  let ?r = "\<lparr>dailySpending = ?sd, highestSpendingDay = ?hi, lowestSpendingDay = ?lo\<rparr>"
  have res: "analyzeSpendingTimeline dateValue ts = Inr ?r"
    using analyzeSpendingTimeline_closed [OF assms, of dateValue] by (simp add: Let_def)
  have 1: "set (map dayDate ?sd) = Some ` set (map date ts)"
    by (simp add: image_image)
  have "distinct ?rows"
    by (simp add: distinct_map inj_on_def dayRow_def)
  moreover have "inj_on dayDate (set ?rows)"
    by (auto simp: inj_on_def)
  ultimately have 2: "distinct (map dayDate ?sd)"
    by (simp add: distinct_map)
  have 3: "\<forall>d\<in>set ?sd. \<forall>k. dayDate d = Some k \<longrightarrow> dayAmount d = toFixed 2 (groupSum date amount ts k)"
    by auto
  have 4: "sorted (map (timeOf dateValue) ?sd)"
    by (rule sorted_sort_key)
  have num: "dayAmount d \<noteq> NaN" if "d \<in> set ?sd" for d
    using that by auto
  have nonempty: "?sd \<noteq> []" if "ts \<noteq> []"
  proof -
    have "set ?sd = dayRow ts ` set (map date ts)" by simp
    then have "set ?sd \<noteq> {}" using that by simp
    then show ?thesis by (metis set_empty)
  qed
  have 5: "\<exists>pre post. ?sd = pre @ ?hi # post \<and>
                (\<forall>d\<in>set pre. less (dayAmount d) (dayAmount ?hi)) \<and>
                (\<forall>d\<in>set post. lessEq (dayAmount d) (dayAmount ?hi))" if "ts \<noteq> []"
  proof -
    have ne: "?sd \<noteq> []" by (rule nonempty [OF that])
    then have hd: "firstOrDefault ?sd = hd ?sd"
      by (cases ?sd) (simp_all add: firstOrDefault_def)
    have "\<forall>d\<in>set ?sd. \<forall>e\<in>set ?sd.
            greater (dayAmount d) (dayAmount e) \<longleftrightarrow> rank (dayAmount e) < rank (dayAmount d)"
      using num by (simp add: greater_rank)
    from foldl_first_max_list [OF ne this] obtain pre post where
      dec: "?sd = pre @ ?hi # post" and
      pre: "\<forall>d\<in>set pre. rank (dayAmount d) < rank (dayAmount ?hi)" and
      post: "\<forall>d\<in>set post. rank (dayAmount d) \<le> rank (dayAmount ?hi)"
      unfolding hd by blast
    have mem: "d \<in> set ?sd" if "d \<in> set (pre @ ?hi # post)" for d
      using that by (simp only: dec [symmetric])
    have hi: "dayAmount ?hi \<noteq> NaN"
      by (rule num, rule mem) simp
    have "\<forall>d\<in>set pre. less (dayAmount d) (dayAmount ?hi)"
    proof
      fix d assume d: "d \<in> set pre"
      then have "dayAmount d \<noteq> NaN" by (intro num mem) simp
      then show "less (dayAmount d) (dayAmount ?hi)"
        using pre d hi by (simp add: less_rank)
    qed
    moreover have "\<forall>d\<in>set post. lessEq (dayAmount d) (dayAmount ?hi)"
    proof
      fix d assume d: "d \<in> set post"
      then have "dayAmount d \<noteq> NaN" by (intro num mem) simp
      then show "lessEq (dayAmount d) (dayAmount ?hi)"
        using post d hi by (simp add: lessEq_rank)
    qed
    ultimately show ?thesis using dec by blast
  qed
  have 6: "\<exists>pre post. ?sd = pre @ ?lo # post \<and>
                (\<forall>d\<in>set pre. less (dayAmount ?lo) (dayAmount d)) \<and>
                (\<forall>d\<in>set post. lessEq (dayAmount ?lo) (dayAmount d))" if "ts \<noteq> []"
  proof -
    have ne: "?sd \<noteq> []" by (rule nonempty [OF that])
    then have hd: "firstOrDefault ?sd = hd ?sd"
      by (cases ?sd) (simp_all add: firstOrDefault_def)
    have "\<forall>d\<in>set ?sd. \<forall>e\<in>set ?sd.
            less (dayAmount d) (dayAmount e) \<longleftrightarrow> rankDesc (dayAmount e) < rankDesc (dayAmount d)"
      using num by (simp add: less_rank rankDesc_less)
    from foldl_first_max_list [OF ne this] obtain pre post where
      dec: "?sd = pre @ ?lo # post" and
      pre: "\<forall>d\<in>set pre. rankDesc (dayAmount d) < rankDesc (dayAmount ?lo)" and
      post: "\<forall>d\<in>set post. rankDesc (dayAmount d) \<le> rankDesc (dayAmount ?lo)"
      unfolding hd by blast
    have mem: "d \<in> set ?sd" if "d \<in> set (pre @ ?lo # post)" for d
      using that by (simp only: dec [symmetric])
    have lo: "dayAmount ?lo \<noteq> NaN"
      by (rule num, rule mem) simp
    have "\<forall>d\<in>set pre. less (dayAmount ?lo) (dayAmount d)"
    proof
      fix d assume d: "d \<in> set pre"
      then have "dayAmount d \<noteq> NaN" by (intro num mem) simp
      then show "less (dayAmount ?lo) (dayAmount d)"
        using pre d lo by (simp add: less_rank rankDesc_less)
    qed
    moreover have "\<forall>d\<in>set post. lessEq (dayAmount ?lo) (dayAmount d)"
    proof
      fix d assume d: "d \<in> set post"
      then have "dayAmount d \<noteq> NaN" by (intro num mem) simp
      then show "lessEq (dayAmount ?lo) (dayAmount d)"
        using post d lo by (simp add: lessEq_rank rankDesc_le)
    qed
    ultimately show ?thesis using dec by blast
  qed
  have 7: "?hi = \<lparr>dayDate = None, dayAmount = Fin 0\<rparr> \<and> ?lo = \<lparr>dayDate = None, dayAmount = Fin 0\<rparr>" if "ts = []"
    using that by (simp add: keyOrder_def firstOrDefault_def)
  have "set (map dayDate (dailySpending ?r)) = Some ` set (map date ts) \<and>
           distinct (map dayDate (dailySpending ?r)) \<and>
           (\<forall>d\<in>set (dailySpending ?r). \<forall>k. dayDate d = Some k \<longrightarrow>
               dayAmount d = toFixed 2 (groupSum date amount ts k)) \<and>
           sorted (map (timeOf dateValue) (dailySpending ?r)) \<and>
           (ts \<noteq> [] \<longrightarrow>
             (\<exists>pre post. dailySpending ?r = pre @ highestSpendingDay ?r # post \<and>
                (\<forall>d\<in>set pre. less (dayAmount d) (dayAmount (highestSpendingDay ?r))) \<and>
                (\<forall>d\<in>set post. lessEq (dayAmount d) (dayAmount (highestSpendingDay ?r)))) \<and>
             (\<exists>pre post. dailySpending ?r = pre @ lowestSpendingDay ?r # post \<and>
                (\<forall>d\<in>set pre. less (dayAmount (lowestSpendingDay ?r)) (dayAmount d)) \<and>
                (\<forall>d\<in>set post. lessEq (dayAmount (lowestSpendingDay ?r)) (dayAmount d)))) \<and>
           (ts = [] \<longrightarrow>
             highestSpendingDay ?r = \<lparr>dayDate = None, dayAmount = Fin 0\<rparr> \<and>
             lowestSpendingDay ?r = \<lparr>dayDate = None, dayAmount = Fin 0\<rparr>)"
    unfolding timelineAnalysis.simps using 1 2 3 4 5 6 7 by blast
  with res show ?thesis by blast
qed

text \<open>
  The example of C5: 40 and 5 on 2024-01-02 and 10 on 2024-01-01 give the days
  2024-01-01 with 10 and 2024-01-02 with 45, in this order, the second the highest
  and the first the lowest. The date values are the two midnights in milliseconds.
  Without transactions both days are the default.
\<close>

theorem timeline_reduction_witness:
  "analyzeSpendingTimeline
     (\<lambda>d. if d = ''2024-01-01'' then 1704067200000 else if d = ''2024-01-02'' then 1704153600000 else 0)
     [\<lparr>date = ''2024-01-02'', category = ''Food'', amount = 40\<rparr>,
      \<lparr>date = ''2024-01-01'', category = ''Food'', amount = 10\<rparr>,
      \<lparr>date = ''2024-01-02'', category = ''Books'', amount = 5\<rparr>] =
   Inr \<lparr>dailySpending = [\<lparr>dayDate = Some ''2024-01-01'', dayAmount = Fin 10\<rparr>,
                          \<lparr>dayDate = Some ''2024-01-02'', dayAmount = Fin 45\<rparr>],
        highestSpendingDay = \<lparr>dayDate = Some ''2024-01-02'', dayAmount = Fin 45\<rparr>,
        lowestSpendingDay = \<lparr>dayDate = Some ''2024-01-01'', dayAmount = Fin 10\<rparr>\<rparr> \<and>
   sorted (map (timeOf (\<lambda>d. if d = ''2024-01-01'' then 1704067200000 else if d = ''2024-01-02'' then 1704153600000 else 0))
     [\<lparr>dayDate = Some ''2024-01-01'', dayAmount = Fin 10\<rparr>,
      \<lparr>dayDate = Some ''2024-01-02'', dayAmount = Fin 45\<rparr>]) \<and>
   (\<exists>r. analyzeSpendingTimeline (\<lambda>d. 0) [] = Inr r \<and>
      highestSpendingDay r = \<lparr>dayDate = None, dayAmount = Fin 0\<rparr> \<and>
      lowestSpendingDay r = \<lparr>dayDate = None, dayAmount = Fin 0\<rparr>)"
proof -
  let ?dv = "\<lambda>d. if d = ''2024-01-01'' then (1704067200000::int) else if d = ''2024-01-02'' then 1704153600000 else 0"
  let ?ts = "[\<lparr>date = ''2024-01-02'', category = ''Food'', amount = 40\<rparr>,
      \<lparr>date = ''2024-01-01'', category = ''Food'', amount = 10\<rparr>,
      \<lparr>date = ''2024-01-02'', category = ''Books'', amount = 5\<rparr>]"
  have ev:
    "fadd (Fin 0) (Fin 40) = Fin 40"
    "fadd (Fin 40) (Fin 5) = Fin 45"
    "fadd (Fin 0) (Fin 10) = Fin 10"
    "toFixed 2 (Fin 45) = Fin 45"
    "toFixed 2 (Fin 10) = Fin 10"
    "fsub (Fin 1704153600000) (Fin 1704067200000) = Fin 86400000"
    "fsub (Fin 1704067200000) (Fin 1704153600000) = Fin (- 86400000)"
    by (simp_all add: binary64_eval)
  have h: "\<forall>t\<in>set ?ts. date t \<notin> set objectPrototypeNames"
    by (simp add: objectPrototypeNames_def)
  have ev': "analyzeSpendingTimeline ?dv ?ts =
     Inr \<lparr>dailySpending = [\<lparr>dayDate = Some ''2024-01-01'', dayAmount = Fin 10\<rparr>,
                          \<lparr>dayDate = Some ''2024-01-02'', dayAmount = Fin 45\<rparr>],
        highestSpendingDay = \<lparr>dayDate = Some ''2024-01-02'', dayAmount = Fin 45\<rparr>,
        lowestSpendingDay = \<lparr>dayDate = Some ''2024-01-01'', dayAmount = Fin 10\<rparr>\<rparr>"
    by (simp add: analyzeSpendingTimeline_def setProp_def getProp_def orZero_def jsAdd_def
      objectPrototypeNames_def entries_def isArrayIndex_def isDigit_def digitsValue_def
      dayOf_def arraySort_def timeOf_def firstOrDefault_def Let_def ev falsy_def greater_def less_def)
  from timeline_reduction [OF h, of ?dv] obtain r where
    "analyzeSpendingTimeline ?dv ?ts = Inr r" "sorted (map (timeOf ?dv) (dailySpending r))"
    by blast
  with ev' have "sorted (map (timeOf ?dv) [\<lparr>dayDate = Some ''2024-01-01'', dayAmount = Fin 10\<rparr>,
      \<lparr>dayDate = Some ''2024-01-02'', dayAmount = Fin 45\<rparr>])"
    by simp
  with ev' have a: "analyzeSpendingTimeline ?dv ?ts =
     Inr \<lparr>dailySpending = [\<lparr>dayDate = Some ''2024-01-01'', dayAmount = Fin 10\<rparr>,
                          \<lparr>dayDate = Some ''2024-01-02'', dayAmount = Fin 45\<rparr>],
        highestSpendingDay = \<lparr>dayDate = Some ''2024-01-02'', dayAmount = Fin 45\<rparr>,
        lowestSpendingDay = \<lparr>dayDate = Some ''2024-01-01'', dayAmount = Fin 10\<rparr>\<rparr> \<and>
   sorted (map (timeOf ?dv) [\<lparr>dayDate = Some ''2024-01-01'', dayAmount = Fin 10\<rparr>,
      \<lparr>dayDate = Some ''2024-01-02'', dayAmount = Fin 45\<rparr>])"
    by (simp only: simp_thms)
  have "\<forall>t\<in>set ([]::transaction list). date t \<notin> set objectPrototypeNames" by simp
  from timeline_reduction [OF this, of "\<lambda>d. 0"]
  have b: "\<exists>r. analyzeSpendingTimeline (\<lambda>d. 0) [] = Inr r \<and>
      highestSpendingDay r = \<lparr>dayDate = None, dayAmount = Fin 0\<rparr> \<and>
      lowestSpendingDay r = \<lparr>dayDate = None, dayAmount = Fin 0\<rparr>"
    by blast
  from a [THEN conjunct1] a [THEN conjunct2] b show ?thesis by (intro conjI)
qed

text \<open>
  C5 as stated fails: with 1.001 spent on 2024-01-01 and 1.004 on 2024-01-02 the sum of
  the second date is the greater one, yet both days are reported with the amount 1 and
  the highest spending day is 2024-01-01.
\<close>

theorem highest_day_of_sums_counterexample:
  "analyzeSpendingTimeline
     (\<lambda>d. if d = ''2024-01-01'' then 1704067200000 else if d = ''2024-01-02'' then 1704153600000 else 0)
     [\<lparr>date = ''2024-01-01'', category = ''Food'', amount = double (1001 / 1000)\<rparr>,
      \<lparr>date = ''2024-01-02'', category = ''Food'', amount = double (1004 / 1000)\<rparr>] =
   Inr \<lparr>dailySpending = [\<lparr>dayDate = Some ''2024-01-01'', dayAmount = Fin 1\<rparr>,
                          \<lparr>dayDate = Some ''2024-01-02'', dayAmount = Fin 1\<rparr>],
        highestSpendingDay = \<lparr>dayDate = Some ''2024-01-01'', dayAmount = Fin 1\<rparr>,
        lowestSpendingDay = \<lparr>dayDate = Some ''2024-01-01'', dayAmount = Fin 1\<rparr>\<rparr> \<and>
   greater
     (groupSum date amount
        [\<lparr>date = ''2024-01-01'', category = ''Food'', amount = double (1001 / 1000)\<rparr>,
         \<lparr>date = ''2024-01-02'', category = ''Food'', amount = double (1004 / 1000)\<rparr>]
        ''2024-01-02'')
     (groupSum date amount
        [\<lparr>date = ''2024-01-01'', category = ''Food'', amount = double (1001 / 1000)\<rparr>,
         \<lparr>date = ''2024-01-02'', category = ''Food'', amount = double (1004 / 1000)\<rparr>]
        ''2024-01-01'')"
proof -
  have ev:
    "double (1001 / 1000) = 2254051613498933 / 2251799813685248"
    "double (1004 / 1000) = 2260807012939989 / 2251799813685248"
    "fadd (Fin 0) (Fin (2254051613498933 / 2251799813685248)) = Fin (2254051613498933 / 2251799813685248)"
    "fadd (Fin 0) (Fin (2260807012939989 / 2251799813685248)) = Fin (2260807012939989 / 2251799813685248)"
    "toFixed 2 (Fin (2254051613498933 / 2251799813685248)) = Fin 1"
    "toFixed 2 (Fin (2260807012939989 / 2251799813685248)) = Fin 1"
    "fsub (Fin 1704153600000) (Fin 1704067200000) = Fin 86400000"
    "fsub (Fin 1704067200000) (Fin 1704153600000) = Fin (- 86400000)"
    by (simp_all add: binary64_eval)
  show ?thesis
    unfolding ev
    by (simp add: analyzeSpendingTimeline_def setProp_def getProp_def orZero_def jsAdd_def
      objectPrototypeNames_def entries_def isArrayIndex_def isDigit_def digitsValue_def
      dayOf_def arraySort_def timeOf_def firstOrDefault_def Let_def ev falsy_def greater_def less_def
      groupSum_def floatSum_def)
qed

text \<open>
  C6. The validator tests the budget with \<open>!student.monthlyBudget\<close>, and the number 0 is
  falsy: a dataset whose one student has every field, a transaction with every field,
  and the budget 0 is rejected with "Student 1: Missing required fields", although the
  budget is defined. The same dataset with the budget 400 is accepted, an amount of 0 is
  accepted (the amount is compared with \<open>undefined\<close>), and the budget analysis provides
  for the budget 0 with a utilization of 0.
\<close>

theorem validator_rejects_zero_budget:
  "validateData
     (JObject [(''students'',
        JArray [JObject [(''studentId'', JString ''STU001''), (''name'', JString ''Ada''),
                         (''semester'', JString ''Fall 2024''), (''monthlyBudget'', JNumber 0),
                         (''transactions'',
                          JArray [JObject [(''date'', JString ''2024-01-05''),
                                           (''category'', JString ''Food''),
                                           (''amount'', JNumber 12)]])]])]) =
     Inl (Error ''Student 1: Missing required fields'') \<and>
   validateData
     (JObject [(''students'',
        JArray [JObject [(''studentId'', JString ''STU001''), (''name'', JString ''Ada''),
                         (''semester'', JString ''Fall 2024''), (''monthlyBudget'', JNumber 400),
                         (''transactions'',
                          JArray [JObject [(''date'', JString ''2024-01-05''),
                                           (''category'', JString ''Food''),
                                           (''amount'', JNumber 0)]])]])]) = Inr () \<and>
   utilization (analyzeBudget [\<lparr>date = ''2024-01-05'', category = ''Food'', amount = 12\<rparr>] 0) = Fin 0"
proof -
  have "toFixed 1 (Fin 0) = Fin 0"
    by (simp add: toFixed_def roundDecimal_def)
  then have "utilization (analyzeBudget [\<lparr>date = ''2024-01-05'', category = ''Food'', amount = 12\<rparr>] 0) = Fin 0"
    by (simp add: analyzeBudget_def Let_def)
  then show ?thesis
    by (simp add: validateData_def checkStudent_def checkTransaction_def forEach_def getField_def
      truthy_def isArray_def elements_def nullish_def showNat.simps)
qed

text \<open>So the validator does not accept the dataset with the budget 0.\<close>

theorem validator_rejects_zero_budget_witness:
  "validateData
     (JObject [(''students'',
        JArray [JObject [(''studentId'', JString ''STU001''), (''name'', JString ''Ada''),
                         (''semester'', JString ''Fall 2024''), (''monthlyBudget'', JNumber 0),
                         (''transactions'',
                          JArray [JObject [(''date'', JString ''2024-01-05''),
                                           (''category'', JString ''Food''),
                                           (''amount'', JNumber 12)]])]])]) \<noteq> Inr ()"
  using validator_rejects_zero_budget by simp

text \<open>
  C7, as the code has it. For a collection that is not empty, \<open>average\<close> is the binary64
  sum of the amounts, not rounded to two decimals, divided by the number of transactions
  and then rounded to two decimals. For the empty collection it is 0.
\<close>

theorem average_of_unrounded_sum:
  "average (calculateSpendingMetrics ts) =
     (if ts = [] then Fin 0
      else toFixed 2 (fdiv (floatSum (map amount ts)) (Fin (of_nat (length ts)))))"
  by (simp add: calculateSpendingMetrics_def Let_def foldl_amount_floatSum floatSum_def)

text \<open>
  An instance of C7: four transactions of 120, 80, 60 and 40 average 75.
\<close>

theorem average_of_unrounded_sum_witness:
  "average (calculateSpendingMetrics
      [\<lparr>date = ''2024-01-05'', category = ''Food'', amount = 120\<rparr>,
       \<lparr>date = ''2024-01-06'', category = ''Food'', amount = 80\<rparr>,
       \<lparr>date = ''2024-01-06'', category = ''Books'', amount = 60\<rparr>,
       \<lparr>date = ''2024-01-07'', category = ''Entertainment'', amount = 40\<rparr>]) = Fin 75 \<and>
   average (calculateSpendingMetrics []) = Fin 0"
proof -
  have ev:
    "fadd (Fin 0) (Fin 120) = Fin 120"
    "fadd (Fin 120) (Fin 80) = Fin 200"
    "fadd (Fin 200) (Fin 60) = Fin 260"
    "fadd (Fin 260) (Fin 40) = Fin 300"
    "fdiv (Fin 300) (Fin 4) = Fin 75"
    "toFixed 2 (Fin 75) = Fin 75"
    by (simp_all add: binary64_eval)
  show ?thesis
    using average_of_unrounded_sum [of "[\<lparr>date = ''2024-01-05'', category = ''Food'', amount = 120\<rparr>,
       \<lparr>date = ''2024-01-06'', category = ''Food'', amount = 80\<rparr>,
       \<lparr>date = ''2024-01-06'', category = ''Books'', amount = 60\<rparr>,
       \<lparr>date = ''2024-01-07'', category = ''Entertainment'', amount = 40\<rparr>]"]
      average_of_unrounded_sum [of "[]"]
    by (simp add: floatSum_def ev)
qed

text \<open>
  C7 as stated fails: for the amounts 0.12 and 0.127 the average is 0.12, while the
  total 0.25 divided by 2 and rounded is 0.13.
\<close>

theorem average_of_rounded_total_counterexample:
  "average (calculateSpendingMetrics
      [\<lparr>date = ''2024-01-05'', category = ''Food'', amount = double (12 / 100)\<rparr>,
       \<lparr>date = ''2024-01-05'', category = ''Food'', amount = double (127 / 1000)\<rparr>]) = Fin (double (12 / 100)) \<and>
   total (calculateSpendingMetrics
      [\<lparr>date = ''2024-01-05'', category = ''Food'', amount = double (12 / 100)\<rparr>,
       \<lparr>date = ''2024-01-05'', category = ''Food'', amount = double (127 / 1000)\<rparr>]) = Fin (double (25 / 100)) \<and>
   toFixed 2 (fdiv (Fin (double (25 / 100))) (Fin 2)) = Fin (double (13 / 100)) \<and>
   double (12 / 100) \<noteq> double (13 / 100)"
proof -
  have ev:
    "double (12 / 100) = 1080863910568919 / 9007199254740992"
    "double (127 / 1000) = 571957152676053 / 4503599627370496"
    "double (13 / 100) = 1170935903116329 / 9007199254740992"
    "fadd (Fin 0) (Fin (1080863910568919 / 9007199254740992)) = Fin (1080863910568919 / 9007199254740992)"
    "fadd (Fin (1080863910568919 / 9007199254740992)) (Fin (571957152676053 / 4503599627370496)) = Fin (2224778215921025 / 9007199254740992)"
    "fdiv (Fin (2224778215921025 / 9007199254740992)) (Fin 2) = Fin (2224778215921025 / 18014398509481984)"
    "toFixed 2 (Fin (2224778215921025 / 18014398509481984)) = Fin (1080863910568919 / 9007199254740992)"
    "toFixed 2 (Fin (2224778215921025 / 9007199254740992)) = Fin (1 / 4)"
    "fdiv (Fin (1 / 4)) (Fin 2) = Fin (1 / 8)"
    "toFixed 2 (Fin (1 / 8)) = Fin (1170935903116329 / 9007199254740992)"
    "double (25 / 100) = 1 / 4"
    by (simp_all add: binary64_eval)
  show ?thesis
    unfolding ev by (simp add: calculateSpendingMetrics_def Let_def ev)
qed

text \<open>
  C9. With data loaded, \<open>analyzeStudent\<close> of an id that no student has throws the error
  "Student <id> not found", with that id in the message; of an id that a student has, it
  throws no such error for any id.
\<close>

theorem student_not_found:
  "(sid \<notin> studentId ` set (students d) \<longrightarrow>
      analyzeStudent dateValue (Some d) sid = Inl (Error (''Student '' @ sid @ '' not found''))) \<and>
   (sid \<in> studentId ` set (students d) \<longrightarrow>
      (\<forall>x. analyzeStudent dateValue (Some d) sid \<noteq> Inl (Error (''Student '' @ x @ '' not found''))))"
proof (intro conjI impI allI)
  assume "sid \<notin> studentId ` set (students d)"
  then have "find (\<lambda>s. studentId s = sid) (students d) = None"
    by (auto simp: find_None_iff)
  then show "analyzeStudent dateValue (Some d) sid = Inl (Error (''Student '' @ sid @ '' not found''))"
    by (simp add: analyzeStudent_def)
next
  fix x
  assume "sid \<in> studentId ` set (students d)"
  then have "find (\<lambda>s. studentId s = sid) (students d) \<noteq> None"
    by (auto simp: find_None_iff)
  then obtain s where "find (\<lambda>s. studentId s = sid) (students d) = Some s"
    by blast
  from analyzeStudent_found [OF this, of dateValue]
  show "analyzeStudent dateValue (Some d) sid \<noteq> Inl (Error (''Student '' @ x @ '' not found''))"
    by auto
qed

text \<open>An instance of C9: the data holds STU001, and STU002 is asked for, then STU001.\<close>

theorem student_not_found_witness:
  "analyzeStudent (\<lambda>d. 0)
     (Some \<lparr>students = [\<lparr>studentId = ''STU001'', name = ''Ada'', semester = ''Fall 2024'',
                          monthlyBudget = 400, transactions = []\<rparr>]\<rparr>) ''STU002'' =
     Inl (Error ''Student STU002 not found'') \<and>
   analyzeStudent (\<lambda>d. 0)
     (Some \<lparr>students = [\<lparr>studentId = ''STU001'', name = ''Ada'', semester = ''Fall 2024'',
                          monthlyBudget = 400, transactions = []\<rparr>]\<rparr>) ''STU001'' \<noteq>
     Inl (Error ''Student STU001 not found'')"
proof -
  let ?d = "\<lparr>students = [\<lparr>studentId = ''STU001'', name = ''Ada'', semester = ''Fall 2024'',
                          monthlyBudget = 400, transactions = []\<rparr>]\<rparr>"
  have a: "analyzeStudent (\<lambda>d. 0) (Some ?d) ''STU002'' = Inl (Error ''Student STU002 not found'')"
    using student_not_found [where sid = "''STU002''" and dateValue = "\<lambda>d. 0" and d = ?d]
    by simp
  have "\<forall>x. analyzeStudent (\<lambda>d. 0) (Some ?d) ''STU001'' \<noteq> Inl (Error (''Student '' @ x @ '' not found''))"
    using student_not_found [where sid = "''STU001''" and dateValue = "\<lambda>d. 0" and d = ?d]
    by simp
  then have "analyzeStudent (\<lambda>d. 0) (Some ?d) ''STU001'' \<noteq>
             Inl (Error (''Student '' @ ''STU001'' @ '' not found''))"
    by (rule spec)
  then have b: "analyzeStudent (\<lambda>d. 0) (Some ?d) ''STU001'' \<noteq> Inl (Error ''Student STU001 not found'')"
    by simp
  from a b show ?thesis by (rule conjI)
qed

text \<open>
  C10. Before any data is loaded, \<open>analyzeStudent\<close> throws the error "No data loaded",
  whatever the student id: it returns no analysis, and the error is not the one of a
  student that is not found.
\<close>

theorem no_data_loaded:
  "analyzeStudent dateValue None sid = Inl (Error ''No data loaded. Call loadData() first.'') \<and>
   analyzeStudent dateValue None sid \<noteq> Inl (Error (''Student '' @ sid @ '' not found'')) \<and>
   (\<forall>a. analyzeStudent dateValue None sid \<noteq> Inr a)"
  by (simp add: analyzeStudent_def)

end
